theory Spec2Isabelle
  imports Main
begin

section \<open>JavaScript values and strings\<close>

text \<open>
  The gateway is a single Node.js file, \<^verbatim>\<open>server.js\<close>. The values its guards test
  for truthiness (\<^verbatim>\<open>||\<close>, \<^verbatim>\<open>&&\<close>, \<^verbatim>\<open>!\<close>) are strings, \<^verbatim>\<open>undefined\<close>,
  \<^verbatim>\<open>null\<close> and, for a repeated query parameter, an array or object. A character is a
  code unit of the Latin-1 range, which is what an HTTP header carries.
\<close>

datatype jsval = Undefined | Null | Str string | Obj

fun truthy :: "jsval \<Rightarrow> bool" where
  "truthy Undefined = False"
| "truthy Null = False"
| "truthy (Str s) = (s \<noteq> [])"
| "truthy Obj = True"

text \<open>\<^verbatim>\<open>a || b\<close>: the left operand when it is truthy, the right one otherwise.\<close>

definition js_or :: "jsval \<Rightarrow> jsval \<Rightarrow> jsval" where
  "js_or a b = (if truthy a then a else b)"

text \<open>\<^verbatim>\<open>String.prototype.toLowerCase\<close> on Latin-1: A-Z and the accented capitals.\<close>

definition lower_char :: "char \<Rightarrow> char" where
  "lower_char c =
     (let n = (of_char c :: nat)
      in if (65 \<le> n \<and> n \<le> 90) \<or> (192 \<le> n \<and> n \<le> 222 \<and> n \<noteq> 215)
         then char_of (n + 32) else c)"

definition toLowerCase :: "string \<Rightarrow> string" where
  "toLowerCase s = map lower_char s"

definition startsWith :: "string \<Rightarrow> string \<Rightarrow> bool" where
  "startsWith s p = (take (length p) s = p)"

text \<open>\<^verbatim>\<open>s.slice(n)\<close> for a non-negative \<open>n\<close>.\<close>

definition slice_from :: "nat \<Rightarrow> string \<Rightarrow> string" where
  "slice_from n s = drop n s"

text \<open>White space as \<^verbatim>\<open>trim\<close> sees it in Latin-1: TAB, LF, VT, FF, CR, space, NBSP.\<close>

definition is_space :: "char \<Rightarrow> bool" where
  "is_space c = (let n = (of_char c :: nat) in (9 \<le> n \<and> n \<le> 13) \<or> n = 32 \<or> n = 160)"

definition trim :: "string \<Rightarrow> string" where
  "trim s = rev (dropWhile is_space (rev (dropWhile is_space s)))"

text \<open>\<^verbatim>\<open>s.includes(p)\<close>: \<open>p\<close> occurs in \<open>s\<close> as a contiguous run.\<close>

fun str_includes :: "string \<Rightarrow> string \<Rightarrow> bool" where
  "str_includes [] p = (p = [])"
| "str_includes (c # cs) p = (startsWith (c # cs) p \<or> str_includes cs p)"

section \<open>Requests, responses and the key check\<close>

text \<open>
  Express looks a header up without regard to case, so the model keys the header map
  by the lower-cased name. \<open>query_key\<close> is \<^verbatim>\<open>req.query.key\<close>; \<open>body_is_initialize\<close>
  is the verdict of the protocol library's \<^verbatim>\<open>isInitializeRequest(req.body)\<close>.
\<close>

record request =
  req_method :: string
  query_key :: jsval
  headers :: "string \<rightharpoonup> string"
  body_is_initialize :: bool

definition req_get :: "request \<Rightarrow> string \<Rightarrow> jsval" where
  "req_get req name =
     (case headers req (toLowerCase name) of None \<Rightarrow> Undefined | Some v \<Rightarrow> Str v)"

datatype resp_body =
    Text string
  | JsonRpcError string int string jsval
  | McpError string
  | SomethingWentWrong string

record response =
  status :: nat
  body :: resp_body

datatype verdict = Next | Respond response

text \<open>
  \<^verbatim>\<open>auth?.toLowerCase().startsWith('bearer ') ? auth.slice(7).trim() : null\<close>
\<close>

definition bearer_of :: "jsval \<Rightarrow> jsval" where
  "bearer_of auth =
     (case auth of
        Str a \<Rightarrow> if startsWith (toLowerCase a) ''bearer '' then Str (trim (slice_from 7 a)) else Null
      | _ \<Rightarrow> Null)"

text \<open>\<^verbatim>\<open>key === API_KEY\<close> where \<open>API_KEY\<close> is a string of the environment.\<close>

definition strict_eq_str :: "jsval \<Rightarrow> string \<Rightarrow> bool" where
  "strict_eq_str v s = (v = Str s)"

text \<open>
  \<open>requireKey\<close>, lines 66-75. \<open>API_KEY\<close> is \<^verbatim>\<open>process.env.MCP_API_KEY\<close>: a string
  or, when the variable is not set, \<^verbatim>\<open>undefined\<close> (\<open>None\<close>).
\<close>

definition requireKey :: "string option \<Rightarrow> request \<Rightarrow> verdict" where
  "requireKey API_KEY req =
     (if req_method req = ''OPTIONS'' then Next
      else
        let q = query_key req;
            x = req_get req ''X-API-Key'';
            auth = req_get req ''Authorization'';
            bearer = bearer_of auth;
            key = js_or (js_or q x) bearer
        in case API_KEY of
             None \<Rightarrow> Respond \<lparr>status = 401, body = Text ''unauthorized''\<rparr>
           | Some k \<Rightarrow>
               if k \<noteq> [] \<and> strict_eq_str key k then Next
               else Respond \<lparr>status = 401, body = Text ''unauthorized''\<rparr>)"

text \<open>
  The key a request supplies, in the words of the specification: the query parameter
  \<^verbatim>\<open>?key=\<close> first, then the \<^verbatim>\<open>X-API-Key\<close> header, then the bearer token of
  \<^verbatim>\<open>Authorization\<close>.
\<close>

definition supplied_key :: "request \<Rightarrow> jsval" where
  "supplied_key req =
     (if truthy (query_key req) then query_key req
      else if truthy (req_get req ''X-API-Key'') then req_get req ''X-API-Key''
      else bearer_of (req_get req ''Authorization''))"

section \<open>The session state\<close>

text \<open>
  The module-level state of lines 159-162, together with the parts of the runtime the
  session code acts on: the timers armed with \<^verbatim>\<open>setTimeout\<close> and not yet fired or
  cleared, the transport objects (by reference), the promises that were rejected with
  nothing awaiting them, the clock and the console.
  A pending timer records what its callback closed over: the session id and the transport.
\<close>

type_synonym tref = nat
type_synonym timer_id = nat

datatype exn = Exn string

record timeout =
  due :: nat
  for_session :: string
  for_transport :: tref

datatype log_entry =
    LogExpired string
  | LogInitialized string
  | LogPostClosed string
  | LogSessionClosed string
  | LogMcpError string
  | LogStack string
  | LogMcpHit string string bool jsval

record server =
  sessions :: "string \<rightharpoonup> tref"
  sessionTimers :: "string \<rightharpoonup> timer_id"
  pending :: "timer_id \<rightharpoonup> timeout"
  next_timer :: timer_id
  next_transport :: tref
  transport_sessionId :: "tref \<Rightarrow> string option"
  closed :: "tref set"
  close_rejects :: "tref \<Rightarrow> bool"
  unhandled :: "exn list"
  now :: nat
  console :: "log_entry list"

definition TTL_MS :: nat where
  "TTL_MS = 10 * 60 * 1000"

definition initial :: server where
  "initial =
     \<lparr>sessions = Map.empty, sessionTimers = Map.empty, pending = Map.empty,
      next_timer = 0, next_transport = 0, transport_sessionId = (\<lambda>_. None),
      closed = {}, close_rejects = (\<lambda>_. False), unhandled = [], now = 0, console = []\<rparr>"

definition console_log :: "log_entry \<Rightarrow> server \<Rightarrow> server" where
  "console_log e st = st\<lparr>console := console st @ [e]\<rparr>"

definition clearTimeout :: "timer_id \<Rightarrow> server \<Rightarrow> server" where
  "clearTimeout t st = st\<lparr>pending := (pending st)(t := None)\<rparr>"

text \<open>\<^verbatim>\<open>setTimeout(callback, delay)\<close>: a fresh handle, due \<open>delay\<close> ms from now.\<close>

definition setTimeout :: "string \<Rightarrow> tref \<Rightarrow> nat \<Rightarrow> server \<Rightarrow> timer_id \<times> server" where
  "setTimeout sid tr delay st =
     (next_timer st,
      st\<lparr>pending := (pending st)(next_timer st \<mapsto>
             \<lparr>due = now st + delay, for_session = sid, for_transport = tr\<rparr>),
         next_timer := Suc (next_timer st)\<rparr>)"

text \<open>
  \<open>touchSession\<close>, lines 164-175. The first argument is \<^verbatim>\<open>transport.sessionId\<close> at
  most call sites: a string or \<^verbatim>\<open>undefined\<close> (\<open>None\<close>); the empty string is falsy too.
\<close>

definition touchSession :: "string option \<Rightarrow> tref \<Rightarrow> server \<Rightarrow> server" where
  "touchSession sessionId transport st =
     (case sessionId of
        None \<Rightarrow> st
      | Some sid \<Rightarrow>
          if sid = [] then st
          else
            let st1 = (case sessionTimers st sid of
                         None \<Rightarrow> st
                       | Some old \<Rightarrow> clearTimeout old st);
                (t, st2) = setTimeout sid transport TTL_MS st1
            in st2\<lparr>sessionTimers := (sessionTimers st2)(sid \<mapsto> t)\<rparr>)"

text \<open>
  \<^verbatim>\<open>transport.close()\<close> belongs to the protocol library and is asynchronous: the call
  returns a promise and throws nothing. The code awaits the promise nowhere. For which
  transports the close fails is the parameter \<open>close_rejects\<close>: a close that fails is a
  promise rejected with nobody awaiting it, an unhandled rejection of the process; a
  close that succeeds leaves the transport closed.
\<close>

definition transport_close :: "tref \<Rightarrow> server \<Rightarrow> exn + server" where
  "transport_close tr st =
     Inr (if close_rejects st tr then st\<lparr>unhandled := unhandled st @ [Exn ''close failed'']\<rparr>
          else st\<lparr>closed := insert tr (closed st)\<rparr>)"

text \<open>\<^verbatim>\<open>try { f() } catch { }\<close>\<close>

definition try_catch_ignore :: "(server \<Rightarrow> exn + server) \<Rightarrow> server \<Rightarrow> exn + server" where
  "try_catch_ignore f st = (case f st of Inl e \<Rightarrow> Inr st | Inr st' \<Rightarrow> Inr st')"

text \<open>
  The callback \<open>touchSession\<close> hands to \<^verbatim>\<open>setTimeout\<close>, lines 168-173. Every call of
  \<open>touchSession\<close> passes a transport object, so \<^verbatim>\<open>transport?.close?.()\<close> calls its close.
\<close>

definition ttl_expired :: "string \<Rightarrow> tref \<Rightarrow> server \<Rightarrow> exn + server" where
  "ttl_expired sessionId transport st =
     (case try_catch_ignore (transport_close transport) st of
        Inl e \<Rightarrow> Inl e
      | Inr st1 \<Rightarrow>
          let st2 = st1\<lparr>sessions := (sessions st1)(sessionId := None)\<rparr>;
              st3 = st2\<lparr>sessionTimers := (sessionTimers st2)(sessionId := None)\<rparr>
          in Inr (console_log (LogExpired sessionId) st3))"

text \<open>
  The event loop runs the callback of a pending timer once, and not before the timer
  is due; a timer that is not pending (fired or cleared) never runs.
\<close>

definition fire :: "timer_id \<Rightarrow> server \<Rightarrow> (exn + server) option" where
  "fire t st =
     (case pending st t of
        None \<Rightarrow> None
      | Some tm \<Rightarrow>
          if now st < due tm then None
          else Some (ttl_expired (for_session tm) (for_transport tm)
                       (st\<lparr>pending := (pending st)(t := None)\<rparr>)))"

definition advance :: "nat \<Rightarrow> server \<Rightarrow> server" where
  "advance d st = st\<lparr>now := now st + d\<rparr>"

text \<open>The callback given to the transport's constructor, lines 335-339.\<close>

definition onsessioninitialized :: "string \<Rightarrow> tref \<Rightarrow> server \<Rightarrow> server" where
  "onsessioninitialized sessionId transport st =
     (let st1 = st\<lparr>sessions := (sessions st)(sessionId \<mapsto> transport)\<rparr>;
          st2 = touchSession (Some sessionId) transport st1
      in console_log (LogInitialized sessionId) st2)"

text \<open>
  What the protocol library does when a fresh transport handles an initialize request:
  it stores the id that \<^verbatim>\<open>sessionIdGenerator\<close> returned in \<^verbatim>\<open>transport.sessionId\<close>
  and then calls \<open>onsessioninitialized\<close> with that id.
\<close>

definition sdk_initialize :: "tref \<Rightarrow> string \<Rightarrow> server \<Rightarrow> server" where
  "sdk_initialize tr sid st =
     onsessioninitialized sid tr
       (st\<lparr>transport_sessionId := (transport_sessionId st)(tr := Some sid)\<rparr>)"

section \<open>The session routes\<close>

datatype progress = Replied response | Handling tref request

text \<open>\<^verbatim>\<open>req.get('Mcp-Session-Id') || req.get('mcp-session-id')\<close>\<close>

definition headerId :: "request \<Rightarrow> jsval" where
  "headerId req = js_or (req_get req ''Mcp-Session-Id'') (req_get req ''mcp-session-id'')"

text \<open>\<^verbatim>\<open>headerId ? sessions.get(headerId) : null\<close>, and \<^verbatim>\<open>headerId && sessions.get(headerId)\<close>\<close>

definition lookup :: "request \<Rightarrow> server \<Rightarrow> tref option" where
  "lookup req st =
     (case headerId req of
        Str h \<Rightarrow> if h = [] then None else sessions st h
      | _ \<Rightarrow> None)"

text \<open>The Accept header the transport is to see, lines 314-319.\<close>

definition ensure_accept :: "bool \<Rightarrow> request \<Rightarrow> request" where
  "ensure_accept FORCE_JSON req =
     (let acc = toLowerCase (case headers req ''accept'' of None \<Rightarrow> [] | Some a \<Rightarrow> a)
      in if FORCE_JSON then req\<lparr>headers := (headers req)(''accept'' \<mapsto> ''application/json'')\<rparr>
         else if \<not> str_includes acc ''application/json'' \<or> \<not> str_includes acc ''text/event-stream''
         then req\<lparr>headers := (headers req)(''accept'' \<mapsto> ''application/json, text/event-stream'')\<rparr>
         else req)"

text \<open>The \<^verbatim>\<open>catch\<close> of both handlers: log, answer 500.\<close>

definition mcp_error :: "exn \<Rightarrow> server \<Rightarrow> progress \<times> server" where
  "mcp_error e st =
     (case e of Exn msg \<Rightarrow>
        (Replied \<lparr>status = 500, body = McpError msg\<rparr>, console_log (LogMcpError msg) st))"

text \<open>
  \<^verbatim>\<open>app.post('/mcp', ...)\<close>, lines 309-350: the handler up to the point where it awaits
  \<^verbatim>\<open>transport.handleRequest\<close>. \<open>init_failure\<close> is the rejection of \<open>initMcpServer\<close>
  (the dynamic imports), if any; \<open>connect_failure\<close> that of \<^verbatim>\<open>server.connect\<close>.
\<close>

definition post_mcp ::
  "bool \<Rightarrow> exn option \<Rightarrow> exn option \<Rightarrow> request \<Rightarrow> server \<Rightarrow> progress \<times> server" where
  "post_mcp FORCE_JSON init_failure connect_failure req0 st =
     (case init_failure of
        Some e \<Rightarrow> mcp_error e st
      | None \<Rightarrow>
          (let req = ensure_accept FORCE_JSON req0
           in (case lookup req st of
                 None \<Rightarrow>
                   (if \<not> body_is_initialize req then
                      (Replied \<lparr>status = 400,
                                body = JsonRpcError ''2.0'' (- 32000)
                                  ''Bad Request: No valid session ID provided (missing initialize)''
                                  Null\<rparr>, st)
                    else
                      (let transport = next_transport st;
                           st1 = st\<lparr>next_transport := Suc transport\<rparr>
                       in (case connect_failure of
                             Some e \<Rightarrow> mcp_error e st1
                           | None \<Rightarrow> (Handling transport req, st1))))
               | Some transport \<Rightarrow>
                   (Handling transport req,
                    touchSession (transport_sessionId st transport) transport st))))"

text \<open>The error-handling middleware of the application, lines 408-411.\<close>

definition error_handler :: "exn \<Rightarrow> server \<Rightarrow> progress \<times> server" where
  "error_handler err st =
     (case err of Exn msg \<Rightarrow>
        (Replied \<lparr>status = 500, body = SomethingWentWrong msg\<rparr>, console_log (LogStack msg) st))"

text \<open>The logging middleware for \<^verbatim>\<open>/mcp\<close>, lines 50-63.\<close>

definition log_mcp_hit :: "request \<Rightarrow> server \<Rightarrow> server" where
  "log_mcp_hit req st =
     console_log
       (LogMcpHit (req_method req) ''/mcp''
          (truthy (query_key req) \<or> truthy (req_get req ''X-API-Key'') \<or>
           startsWith
             (toLowerCase (case js_or (req_get req ''Authorization'') (Str []) of
                             Str a \<Rightarrow> a | _ \<Rightarrow> []))
             ''bearer '')
          (js_or (headerId req) Null))
       st"

text \<open>
  A POST to \<^verbatim>\<open>/mcp\<close> on its way through the application: the JSON body parser of line
  36, the logging middleware, the key check, the handler (the CORS middleware in between
  only adds response headers). \<open>parse_failure\<close> is the error the parser passes on for the
  body of the request (malformed or larger than the limit), if any; Express hands such
  an error to the error-handling middleware and skips what lies between.
\<close>

definition post_mcp_route ::
  "string option \<Rightarrow> bool \<Rightarrow> exn option \<Rightarrow> exn option \<Rightarrow> exn option \<Rightarrow> request \<Rightarrow>
   server \<Rightarrow> progress \<times> server" where
  "post_mcp_route API_KEY FORCE_JSON parse_failure init_failure connect_failure req st =
     (case parse_failure of
        Some err \<Rightarrow> error_handler err st
      | None \<Rightarrow>
          (let st1 = log_mcp_hit req st
           in (case requireKey API_KEY req of
                 Respond r \<Rightarrow> (Replied r, st1)
               | Next \<Rightarrow> post_mcp FORCE_JSON init_failure connect_failure req st1)))"

text \<open>The close handler of a POST response, lines 347-350.\<close>

definition post_closed :: "tref \<Rightarrow> server \<Rightarrow> server" where
  "post_closed transport st =
     (case transport_sessionId st transport of
        None \<Rightarrow> st
      | Some sid \<Rightarrow> if sid = [] then st else console_log (LogPostClosed sid) st)"

text \<open>Line 353, once \<^verbatim>\<open>transport.handleRequest\<close> has returned.\<close>

definition post_handled :: "tref \<Rightarrow> server \<Rightarrow> server" where
  "post_handled transport st = touchSession (transport_sessionId st transport) transport st"

text \<open>
  \<open>handleSessionReq\<close>, lines 360-384, serving GET and DELETE alike: up to the point
  where it awaits \<^verbatim>\<open>transport.handleRequest\<close>.
\<close>

definition handleSessionReq :: "request \<Rightarrow> server \<Rightarrow> progress \<times> server" where
  "handleSessionReq req st =
     (case lookup req st of
        None \<Rightarrow> (Replied \<lparr>status = 400, body = Text ''Invalid or missing session ID''\<rparr>, st)
      | Some transport \<Rightarrow>
          (Handling transport req,
           touchSession (transport_sessionId st transport) transport st))"

text \<open>The close handler of a GET or DELETE response, lines 366-376.\<close>

definition session_closed :: "tref \<Rightarrow> server \<Rightarrow> exn + server" where
  "session_closed transport st =
     (case transport_sessionId st transport of
        None \<Rightarrow> Inr st
      | Some sid \<Rightarrow>
          (if sid = [] then Inr st
           else
             (let st1 = (case sessionTimers st sid of
                           None \<Rightarrow> st
                         | Some t \<Rightarrow> clearTimeout t st);
                  st2 = st1\<lparr>sessionTimers := (sessionTimers st1)(sid := None)\<rparr>;
                  st3 = st2\<lparr>sessions := (sessions st2)(sid := None)\<rparr>
              in (case try_catch_ignore (transport_close transport) st3 of
                    Inl e \<Rightarrow> Inl e
                  | Inr st4 \<Rightarrow> Inr (console_log (LogSessionClosed sid) st4)))))"

section \<open>The tools\<close>

text \<open>
  The three tools registered in \<open>initMcpServer\<close>, lines 189-295. What they read from
  outside the file is a parameter: the token set held in \<open>savedTokens\<close>, what
  \<^verbatim>\<open>oauth2Client.getAccessToken()\<close> resolves to or rejects with, and what an HTTP
  request to the task service yields once \<^verbatim>\<open>r.json()\<close> has parsed it. Of a parsed
  body the tools read \<^verbatim>\<open>items\<close>, and of an item \<^verbatim>\<open>id\<close> and \<^verbatim>\<open>title\<close>.
\<close>

record tokens =
  access_token :: "string option"
  refresh_token :: "string option"

record entity =
  ident :: string
  title :: "string option"

record reply =
  items :: "entity list option"
  document :: string

datatype task_body = TaskBody string "string option" "string option"

record http_request =
  http_method :: string
  url :: string
  http_headers :: "(string \<times> string) list option"
  http_body :: "task_body option"

record environment =
  savedTokens :: "tokens option"
  getAccessToken :: "tokens \<Rightarrow> exn + string option option"
  fetch_json :: "http_request \<Rightarrow> exn + reply"

record auth =
  auth_headers :: "(string \<times> string) list option"
  auth_error :: "string option"

datatype hit = Hit string entity

datatype content = Message string | HitsJson "hit list" | ReplyJson reply

text \<open>A tool's result; a result without \<^verbatim>\<open>isError\<close> has the flag \<open>False\<close>.\<close>

record tool_result =
  content :: content
  isError :: bool

text \<open>
  \<open>authHeader\<close>, lines 189-199. The value \<^verbatim>\<open>getAccessToken\<close> resolves to is
  \<open>None\<close> for \<^verbatim>\<open>null\<close>, and \<open>Some t\<close> for an object whose \<^verbatim>\<open>token\<close> is \<open>t\<close>.
\<close>

definition authHeader :: "environment \<Rightarrow> exn + auth" where
  "authHeader env =
     (case savedTokens env of
        None \<Rightarrow>
          Inr \<lparr>auth_headers = None,
               auth_error = Some ''Not authorized. Visit /oauth2/start first.''\<rparr>
      | Some tk \<Rightarrow>
          (case getAccessToken env tk of
             Inl e \<Rightarrow> Inl e
           | Inr at \<Rightarrow>
               let token = (case at of None \<Rightarrow> None | Some t \<Rightarrow> t)
               in if token = None \<or> token = Some [] then
                    Inr \<lparr>auth_headers = None,
                         auth_error = Some ''No access token (re-auth at /oauth2/start)''\<rparr>
                  else
                    Inr \<lparr>auth_headers =
                           Some [(''Authorization'', ''Bearer '' @ the token),
                                 (''Content-Type'', ''application/json'')],
                         auth_error = None\<rparr>))"

text \<open>\<^verbatim>\<open>if (error)\<close>: the error is a non-empty string.\<close>

definition is_error :: "string option \<Rightarrow> bool" where
  "is_error e = (case e of None \<Rightarrow> False | Some m \<Rightarrow> m \<noteq> [])"

definition error_result :: "string option \<Rightarrow> tool_result" where
  "error_result e = \<lparr>content = Message (case e of None \<Rightarrow> [] | Some m \<Rightarrow> m), isError = True\<rparr>"

text \<open>\<^verbatim>\<open>j.items || []\<close>\<close>

definition items_or_empty :: "reply \<Rightarrow> entity list" where
  "items_or_empty j = (case items j of None \<Rightarrow> [] | Some xs \<Rightarrow> xs)"

definition lists_url :: string where
  "lists_url = ''https://tasks.googleapis.com/tasks/v1/users/@me/lists''"

definition tasks_url :: "string \<Rightarrow> bool \<Rightarrow> string" where
  "tasks_url lid show =
     ''https://tasks.googleapis.com/tasks/v1/lists/'' @ lid @ ''/tasks?showCompleted=''
       @ (if show then ''true'' else ''false'')"

definition task_url :: "string \<Rightarrow> string \<Rightarrow> string" where
  "task_url lid tid = ''https://tasks.googleapis.com/tasks/v1/lists/'' @ lid @ ''/tasks/'' @ tid"

definition new_task_url :: "string \<Rightarrow> string" where
  "new_task_url lid = ''https://tasks.googleapis.com/tasks/v1/lists/'' @ lid @ ''/tasks''"

definition http_get :: "environment \<Rightarrow> string \<Rightarrow> (string \<times> string) list option \<Rightarrow> exn + reply" where
  "http_get env u h =
     fetch_json env \<lparr>http_method = ''GET'', url = u, http_headers = h, http_body = None\<rparr>"

text \<open>\<open>listTaskLists\<close>, lines 201-205.\<close>

definition listTaskLists :: "environment \<Rightarrow> (string \<times> string) list option \<Rightarrow> exn + entity list" where
  "listTaskLists env h =
     (case http_get env lists_url h of
        Inl e \<Rightarrow> Inl e
      | Inr j \<Rightarrow> Inr (items_or_empty j))"

text \<open>
  \<^verbatim>\<open>!query || String(t.title || '').toLowerCase().includes(query.toLowerCase())\<close>
\<close>

definition matches :: "string option \<Rightarrow> entity \<Rightarrow> bool" where
  "matches query t =
     (case query of
        None \<Rightarrow> True
      | Some q \<Rightarrow>
          q = [] \<or>
          str_includes (toLowerCase (case title t of None \<Rightarrow> [] | Some s \<Rightarrow> s)) (toLowerCase q))"

text \<open>The inner loop of the search tool, lines 233-237.\<close>

fun push_matching :: "string option \<Rightarrow> string \<Rightarrow> entity list \<Rightarrow> hit list \<Rightarrow> hit list" where
  "push_matching query lid [] hits = hits"
| "push_matching query lid (t # ts) hits =
     push_matching query lid ts (if matches query t then hits @ [Hit lid t] else hits)"

text \<open>The outer loop, lines 227-238; a request that fails ends it with the exception.\<close>

fun search_loop ::
  "environment \<Rightarrow> (string \<times> string) list option \<Rightarrow> string option \<Rightarrow> bool \<Rightarrow>
   entity list \<Rightarrow> hit list \<Rightarrow> exn + hit list" where
  "search_loop env h query show [] hits = Inr hits"
| "search_loop env h query show (l # ls) hits =
     (case http_get env (tasks_url (ident l) show) h of
        Inl e \<Rightarrow> Inl e
      | Inr j \<Rightarrow>
          search_loop env h query show ls (push_matching query (ident l) (items_or_empty j) hits))"

text \<open>The handler of \<^verbatim>\<open>search\<close>, lines 220-240.\<close>

definition tool_search ::
  "environment \<Rightarrow> string option \<Rightarrow> string option \<Rightarrow> bool option \<Rightarrow> exn + tool_result" where
  "tool_search env query listId showCompleted =
     (let show = (case showCompleted of Some b \<Rightarrow> b | None \<Rightarrow> True)
      in case authHeader env of
           Inl e \<Rightarrow> Inl e
         | Inr a \<Rightarrow>
             if is_error (auth_error a) then Inr (error_result (auth_error a))
             else
               (case (if listId \<noteq> None \<and> listId \<noteq> Some []
                      then Inr [\<lparr>ident = the listId, title = None\<rparr>]
                      else listTaskLists env (auth_headers a)) of
                  Inl e \<Rightarrow> Inl e
                | Inr task_lists \<Rightarrow>
                    (case search_loop env (auth_headers a) query show task_lists [] of
                       Inl e \<Rightarrow> Inl e
                     | Inr hits \<Rightarrow> Inr \<lparr>content = HitsJson (take 25 hits), isError = False\<rparr>)))"

text \<open>The handler of \<^verbatim>\<open>fetch\<close>, lines 254-261.\<close>

definition tool_fetch :: "environment \<Rightarrow> string \<Rightarrow> string \<Rightarrow> exn + tool_result" where
  "tool_fetch env listId taskId =
     (case authHeader env of
        Inl e \<Rightarrow> Inl e
      | Inr a \<Rightarrow>
          if is_error (auth_error a) then Inr (error_result (auth_error a))
          else
            (case http_get env (task_url listId taskId) (auth_headers a) of
               Inl e \<Rightarrow> Inl e
             | Inr j \<Rightarrow> Inr \<lparr>content = ReplyJson j, isError = False\<rparr>))"

text \<open>The handler of \<^verbatim>\<open>create_task\<close>, lines 277-294.\<close>

definition tool_create_task ::
  "environment \<Rightarrow> string option \<Rightarrow> string \<Rightarrow> string option \<Rightarrow> string option \<Rightarrow>
   exn + tool_result" where
  "tool_create_task env listId task_title notes due_date =
     (case authHeader env of
        Inl e \<Rightarrow> Inl e
      | Inr a \<Rightarrow>
          if is_error (auth_error a) then Inr (error_result (auth_error a))
          else
            let post = (\<lambda>targetListId.
                  case fetch_json env
                         \<lparr>http_method = ''POST'', url = new_task_url targetListId,
                          http_headers = auth_headers a,
                          http_body = Some (TaskBody task_title notes due_date)\<rparr> of
                    Inl e \<Rightarrow> Inl e
                  | Inr j \<Rightarrow> Inr \<lparr>content = ReplyJson j, isError = False\<rparr>)
            in if listId \<noteq> None \<and> listId \<noteq> Some [] then post (the listId)
               else
                 (case listTaskLists env (auth_headers a) of
                    Inl e \<Rightarrow> Inl e
                  | Inr task_lists \<Rightarrow>
                      (case task_lists of
                         [] \<Rightarrow> Inr \<lparr>content = Message ''No task lists found.'', isError = True\<rparr>
                       | l # _ \<Rightarrow> post (ident l))))"

section \<open>Runs of the server and what the claims speak of\<close>

text \<open>
  A GET or DELETE request from its arrival to the close of its response: when the
  handler found the session, the close handler it registered runs.
\<close>

definition serve_session_req :: "request \<Rightarrow> server \<Rightarrow> exn + server" where
  "serve_session_req req st =
     (case handleSessionReq req st of
        (Replied r, st') \<Rightarrow> Inr st'
      | (Handling transport r, st') \<Rightarrow> session_closed transport st')"

text \<open>
  What can happen to the server, one event at a time: time passes; a due timer fires; a
  POST arrives and runs up to its await; the protocol library initialises a transport with
  an id not in use; the response of a POST closes; a POST handler resumes after its
  await; a GET or DELETE arrives and runs up to its await; the response of a GET or DELETE
  closes; a handler catches what the transport threw.
\<close>

datatype event =
    Tick nat
  | Fire timer_id
  | Post bool "exn option" "exn option" request
  | Init tref string
  | PostClose tref
  | PostDone tref
  | SessionReq request
  | SessionClose tref
  | Failed exn

definition step :: "event \<Rightarrow> server \<Rightarrow> server option" where
  "step ev st =
     (case ev of
        Tick d \<Rightarrow> Some (advance d st)
      | Fire t \<Rightarrow> (case fire t st of Some (Inr st') \<Rightarrow> Some st' | _ \<Rightarrow> None)
      | Post fj i c req \<Rightarrow> Some (snd (post_mcp fj i c req st))
      | Init tr sid \<Rightarrow>
          (if transport_sessionId st tr = None \<and> sid \<noteq> [] \<and> sessions st sid = None
           then Some (sdk_initialize tr sid st) else None)
      | PostClose tr \<Rightarrow> Some (post_closed tr st)
      | PostDone tr \<Rightarrow> Some (post_handled tr st)
      | SessionReq req \<Rightarrow> Some (snd (handleSessionReq req st))
      | SessionClose tr \<Rightarrow> (case session_closed tr st of Inr st' \<Rightarrow> Some st' | Inl e \<Rightarrow> None)
      | Failed e \<Rightarrow> Some (snd (mcp_error e st)))"

fun run :: "event list \<Rightarrow> server \<Rightarrow> server option" where
  "run [] st = Some st"
| "run (ev # evs) st = (case step ev st of None \<Rightarrow> None | Some st' \<Rightarrow> run evs st')"

text \<open>The event takes the entries of the session \<open>sid\<close> away.\<close>

definition releases :: "string \<Rightarrow> server \<Rightarrow> event \<Rightarrow> bool" where
  "releases sid st ev =
     (case ev of
        Fire t \<Rightarrow> (case pending st t of None \<Rightarrow> False | Some tm \<Rightarrow> for_session tm = sid)
      | SessionClose tr \<Rightarrow> transport_sessionId st tr = Some sid
      | _ \<Rightarrow> False)"

text \<open>The event calls the close of the transport \<open>tr\<close>.\<close>

definition closes :: "tref \<Rightarrow> server \<Rightarrow> event \<Rightarrow> bool" where
  "closes tr st ev =
     (case ev of
        Fire t \<Rightarrow> (case pending st t of None \<Rightarrow> False | Some tm \<Rightarrow> for_transport tm = tr)
      | SessionClose tr' \<Rightarrow> tr' = tr
      | _ \<Rightarrow> False)"

text \<open>
  The states the server can be in: it starts with empty maps; then time passes, due
  timers fire, requests arrive, the protocol library initialises a transport that has no
  id yet with a non-empty id of \<^verbatim>\<open>randomUUID\<close>, handlers resume after their await or
  catch what the transport threw, responses close.
\<close>

inductive reachable :: "server \<Rightarrow> bool" where
  start: "reachable (initial\<lparr>close_rejects := ct\<rparr>)"
| tick: "reachable st \<Longrightarrow> reachable (advance d st)"
| timer: "reachable st \<Longrightarrow> fire t st = Some (Inr st') \<Longrightarrow> reachable st'"
| post: "reachable st \<Longrightarrow> post_mcp fj i c req st = (p, st') \<Longrightarrow> reachable st'"
| init: "reachable st \<Longrightarrow> transport_sessionId st tr = None \<Longrightarrow> sid \<noteq> [] \<Longrightarrow>
         reachable (sdk_initialize tr sid st)"
| post_close: "reachable st \<Longrightarrow> reachable (post_closed tr st)"
| post_done: "reachable st \<Longrightarrow> reachable (post_handled tr st)"
| session_req: "reachable st \<Longrightarrow> handleSessionReq req st = (p, st') \<Longrightarrow> reachable st'"
| session_close: "reachable st \<Longrightarrow> session_closed tr st = Inr st' \<Longrightarrow> reachable st'"
| failed: "reachable st \<Longrightarrow> reachable (snd (mcp_error e st))"

text \<open>
  Every pending timer is the one on record for the session it was armed for, and every
  timer on record is pending.
\<close>

definition timers_wf :: "server \<Rightarrow> bool" where
  "timers_wf st =
     ((\<forall>t tm. pending st t = Some tm \<longrightarrow>
         t < next_timer st \<and> sessionTimers st (for_session tm) = Some t) \<and>
      (\<forall>sid t. sessionTimers st sid = Some t \<longrightarrow>
         (\<exists>tm. pending st t = Some tm \<and> for_session tm = sid)))"

text \<open>Every id in the session map has a timer on record.\<close>

definition registered :: "server \<Rightarrow> bool" where
  "registered st = (\<forall>sid. sessions st sid \<noteq> None \<longrightarrow> sessionTimers st sid \<noteq> None)"

text \<open>An id has a session exactly when it has a timer.\<close>

definition paired :: "server \<Rightarrow> bool" where
  "paired st = (\<forall>sid. (sessions st sid \<noteq> None) = (sessionTimers st sid \<noteq> None))"

text \<open>
  The matches of a search, in the words of the specification: list before list, in
  each list the tasks whose title contains the query, in the order listed. \<open>tasks_of\<close>
  gives the tasks listed for a task list.
\<close>

definition matches_in_order ::
  "string option \<Rightarrow> (entity \<Rightarrow> entity list) \<Rightarrow> entity list \<Rightarrow> hit list" where
  "matches_in_order query tasks_of ls =
     concat (map (\<lambda>l. map (Hit (ident l)) (filter (matches query) (tasks_of l))) ls)"

text \<open>The transport registered under an id carries that id.\<close>

definition sessions_wf :: "server \<Rightarrow> bool" where
  "sessions_wf st =
     (\<forall>sid tr. sessions st sid = Some tr \<longrightarrow> transport_sessionId st tr = Some sid \<and> sid \<noteq> [])"

text \<open>
  The session \<open>sid\<close> is held by the transport \<open>tr\<close>, which alone carries the id, and
  none of its timers is due before \<open>T\<close>, nor will one armed from now on be.
\<close>

definition live :: "string \<Rightarrow> tref \<Rightarrow> nat \<Rightarrow> server \<Rightarrow> bool" where
  "live sid tr T st =
     (sessions st sid = Some tr \<and>
      (\<forall>tr'. transport_sessionId st tr' = Some sid \<longrightarrow> tr' = tr) \<and>
      (\<forall>t tm. pending st t = Some tm \<and> for_session tm = sid \<longrightarrow> T \<le> due tm) \<and>
      T \<le> now st + TTL_MS)"

text \<open>No trace of a session is left: no map entry, no timer on record, none pending.\<close>

definition released :: "string \<Rightarrow> server \<Rightarrow> bool" where
  "released sid st =
     (sessions st sid = None \<and> sessionTimers st sid = None \<and>
      (\<forall>t tm. pending st t = Some tm \<longrightarrow> for_session tm \<noteq> sid))"

text \<open>What the two maps hold for an id at the end of a run.\<close>

definition entries :: "string \<Rightarrow> exn + server \<Rightarrow> (tref option \<times> timer_id option) option" where
  "entries sid r = (case r of Inl e \<Rightarrow> None | Inr st \<Rightarrow> Some (sessions st sid, sessionTimers st sid))"

text \<open>The same, and what a request finds, after a run of events.\<close>

definition entries_after ::
  "string \<Rightarrow> event list \<Rightarrow> server \<Rightarrow> (tref option \<times> timer_id option) option" where
  "entries_after sid evs st =
     (case run evs st of None \<Rightarrow> None | Some st' \<Rightarrow> Some (sessions st' sid, sessionTimers st' sid))"

definition lookup_after :: "request \<Rightarrow> event list \<Rightarrow> server \<Rightarrow> tref option option" where
  "lookup_after req evs st =
     (case run evs st of None \<Rightarrow> None | Some st' \<Rightarrow> Some (lookup req st'))"

text \<open>The rejections left unhandled at the end of a run.\<close>

definition unhandled_after :: "event list \<Rightarrow> server \<Rightarrow> exn list option" where
  "unhandled_after evs st = (case run evs st of None \<Rightarrow> None | Some st' \<Rightarrow> Some (unhandled st'))"

subsection \<open>Example runs\<close>

definition init_request :: request where
  "init_request =
     \<lparr>req_method = ''POST'', query_key = Undefined, headers = Map.empty, body_is_initialize = True\<rparr>"

definition session_request :: "string \<Rightarrow> string \<Rightarrow> request" where
  "session_request m sid =
     \<lparr>req_method = m, query_key = Undefined, headers = [''mcp-session-id'' \<mapsto> sid],
      body_is_initialize = False\<rparr>"

text \<open>A client has initialised the session \<open>s1\<close> with a POST.\<close>

definition one_session :: server where
  "one_session = sdk_initialize 0 ''s1'' (snd (post_mcp False None None init_request initial))"

text \<open>
  The client holds a GET stream open on \<open>s1\<close>; a POST on \<open>s1\<close> is awaiting its
  transport when the GET connection drops; then the POST handler resumes at line 353.
\<close>

definition get_dropped_during_post :: "event list" where
  "get_dropped_during_post =
     [SessionReq (session_request ''GET'' ''s1''),
      Post False None None (session_request ''POST'' ''s1''),
      SessionClose 0,
      PostDone 0]"

text \<open>The session \<open>s1\<close> when the close of its transport fails.\<close>

definition failing_close :: server where
  "failing_close = one_session\<lparr>close_rejects := (\<lambda>tr. True)\<rparr>"

text \<open>
  An account with two task lists and a valid token; the same account when the token
  request resolves without a token, and when it is rejected; an account with no task
  list.
\<close>

definition example_account :: environment where
  "example_account =
     \<lparr>savedTokens = Some \<lparr>access_token = Some ''at'', refresh_token = None\<rparr>,
      getAccessToken = (\<lambda>tk. Inr (Some (access_token tk))),
      fetch_json = (\<lambda>r.
        if http_method r = ''POST'' then
          (if url r = ''https://tasks.googleapis.com/tasks/v1/lists/A/tasks''
           then Inr \<lparr>items = None, document = ''created in A''\<rparr>
           else Inl (Exn ''fetch failed''))
        else if url r = ''https://tasks.googleapis.com/tasks/v1/users/@me/lists'' then
          Inr \<lparr>items = Some [\<lparr>ident = ''A'', title = Some ''Home''\<rparr>,
                             \<lparr>ident = ''B'', title = Some ''Work''\<rparr>],
               document = []\<rparr>
        else if url r = ''https://tasks.googleapis.com/tasks/v1/lists/A/tasks?showCompleted=true'' then
          Inr \<lparr>items = Some [\<lparr>ident = ''t1'', title = Some ''Groceries''\<rparr>,
                             \<lparr>ident = ''t2'', title = Some ''Laundry''\<rparr>],
               document = []\<rparr>
        else if url r = ''https://tasks.googleapis.com/tasks/v1/lists/B/tasks?showCompleted=true'' then
          Inr \<lparr>items = Some [\<lparr>ident = ''t3'', title = Some ''Order GROCERY bags''\<rparr>,
                             \<lparr>ident = ''t4'', title = None\<rparr>],
               document = []\<rparr>
        else if url r = ''https://tasks.googleapis.com/tasks/v1/lists/B/tasks?showCompleted=false'' then
          Inr \<lparr>items = Some [\<lparr>ident = ''t4'', title = None\<rparr>], document = []\<rparr>
        else Inl (Exn ''fetch failed''))\<rparr>"

definition tokenless_account :: environment where
  "tokenless_account = example_account\<lparr>getAccessToken := (\<lambda>tk. Inr (Some None))\<rparr>"

definition revoked_account :: environment where
  "revoked_account = example_account\<lparr>getAccessToken := (\<lambda>tk. Inl (Exn ''invalid_grant''))\<rparr>"

definition empty_account :: environment where
  "empty_account =
     example_account\<lparr>fetch_json := (\<lambda>r. Inr \<lparr>items = None, document = ''{}''\<rparr>)\<rparr>"

section \<open>Evaluation and invariants\<close>

lemmas js_string_defs =
  toLowerCase_def lower_char_def char_of_def bit_Suc_0_iff startsWith_def slice_from_def
  trim_def is_space_def

lemma timers_wf_initial: "timers_wf (initial\<lparr>close_rejects := ct\<rparr>)"
  by (simp add: timers_wf_def initial_def)

lemma timers_wf_fresh: "timers_wf st \<Longrightarrow> pending st t = Some tm \<Longrightarrow> t < next_timer st"
  by (simp add: timers_wf_def)

lemma timers_wf_recorded:
  "timers_wf st \<Longrightarrow> pending st t = Some tm \<Longrightarrow> sessionTimers st (for_session tm) = Some t"
  by (simp add: timers_wf_def)

lemma timers_wf_pending:
  "timers_wf st \<Longrightarrow> sessionTimers st sid = Some t \<Longrightarrow> \<exists>tm. pending st t = Some tm \<and> for_session tm = sid"
  by (simp add: timers_wf_def)

lemma timers_wf_bound: "timers_wf st \<Longrightarrow> sessionTimers st sid = Some t \<Longrightarrow> t < next_timer st"
  by (metis timers_wf_fresh timers_wf_pending)

lemma timers_wf_inj:
  "timers_wf st \<Longrightarrow> sessionTimers st a = Some t \<Longrightarrow> sessionTimers st b = Some t \<Longrightarrow> a = b"
  by (metis timers_wf_pending option.inject)

text \<open>Clearing the recorded timer of a session and forgetting the record.\<close>

lemma timers_wf_forget:
  assumes wf: "timers_wf st"
    and p: "pending st' = (case sessionTimers st sid of None \<Rightarrow> pending st | Some t \<Rightarrow> (pending st)(t := None))"
    and r: "sessionTimers st' = (sessionTimers st)(sid := None)"
    and n: "next_timer st' = next_timer st"
  shows "timers_wf st'"
  unfolding timers_wf_def
proof (intro conjI allI impI)
  fix t tm assume a: "pending st' t = Some tm"
  then have b: "pending st t = Some tm" using p by (auto split: option.splits if_splits)
  show "t < next_timer st'" using timers_wf_fresh[OF wf b] n by simp
  have c: "sessionTimers st (for_session tm) = Some t" by (rule timers_wf_recorded[OF wf b])
  have "for_session tm \<noteq> sid" using a p c by (auto split: option.splits)
  then show "sessionTimers st' (for_session tm) = Some t" using c r by simp
next
  fix s t assume a: "sessionTimers st' s = Some t"
  then have ne: "s \<noteq> sid" and b: "sessionTimers st s = Some t" using r by (auto split: if_splits)
  obtain tm where c: "pending st t = Some tm" "for_session tm = s" using timers_wf_pending[OF wf b] by blast
  have "sessionTimers st sid \<noteq> Some t" using timers_wf_inj[OF wf b] ne by blast
  then have "pending st' t = Some tm" using p c by (auto split: option.splits)
  then show "\<exists>tm. pending st' t = Some tm \<and> for_session tm = s" using c by blast
qed

lemma timers_wf_arm:
  assumes wf: "timers_wf st" and none: "sessionTimers st sid = None"
    and p: "pending st' = (pending st)(next_timer st \<mapsto> tm)" and f: "for_session tm = sid"
    and r: "sessionTimers st' = (sessionTimers st)(sid \<mapsto> next_timer st)"
    and n: "next_timer st' = Suc (next_timer st)"
  shows "timers_wf st'"
  unfolding timers_wf_def
proof (intro conjI allI impI)
  fix t tm' assume a: "pending st' t = Some tm'"
  show "t < next_timer st'" using a p n timers_wf_fresh[OF wf, of t tm'] by (auto split: if_splits)
  show "sessionTimers st' (for_session tm') = Some t"
  proof (cases "t = next_timer st")
    case True then show ?thesis using a p f r by simp
  next
    case False
    then have b: "pending st t = Some tm'" using a p by simp
    have c: "sessionTimers st (for_session tm') = Some t" by (rule timers_wf_recorded[OF wf b])
    then have "for_session tm' \<noteq> sid" using none by auto
    then show ?thesis using c r by simp
  qed
next
  fix s t assume a: "sessionTimers st' s = Some t"
  show "\<exists>tm. pending st' t = Some tm \<and> for_session tm = s"
  proof (cases "s = sid")
    case True then show ?thesis using a r p f by simp
  next
    case False
    then have b: "sessionTimers st s = Some t" using a r by simp
    then have "t \<noteq> next_timer st" using timers_wf_bound[OF wf b] by simp
    then show ?thesis using timers_wf_pending[OF wf b] p by simp
  qed
qed

lemma timers_wf_frame:
  "pending st' = pending st \<Longrightarrow> next_timer st' = next_timer st \<Longrightarrow>
   sessionTimers st' = sessionTimers st \<Longrightarrow> timers_wf st \<Longrightarrow> timers_wf st'"
  by (simp add: timers_wf_def)

lemma timers_wf_touch: "timers_wf st \<Longrightarrow> timers_wf (touchSession sid tr st)"
proof (cases "sid = None \<or> sid = Some []")
  case True
  assume "timers_wf st" then show ?thesis using True by (auto simp: touchSession_def)
next
  case False
  assume wf: "timers_wf st"
  from False obtain s where s: "sid = Some s" "s \<noteq> []" by auto
  define st1 where "st1 = (case sessionTimers st s of None \<Rightarrow> st | Some old \<Rightarrow> clearTimeout old st)\<lparr>sessionTimers := (sessionTimers st)(s := None)\<rparr>"
  have wf1: "timers_wf st1"
    by (rule timers_wf_forget[OF wf, of _ s]) (auto simp: st1_def clearTimeout_def split: option.splits)
  have none: "sessionTimers st1 s = None" by (simp add: st1_def)
  show ?thesis
    by (rule timers_wf_arm[OF wf1 none, of _ "\<lparr>due = now st + TTL_MS, for_session = s, for_transport = tr\<rparr>"])
       (auto simp: touchSession_def s st1_def setTimeout_def clearTimeout_def Let_def split: option.splits)
qed

lemma timers_wf_ttl:
  assumes "timers_wf st" "pending st t = Some tm"
    "ttl_expired (for_session tm) tr (st\<lparr>pending := (pending st)(t := None)\<rparr>) = Inr st'"
  shows "timers_wf st'"
proof (rule timers_wf_forget[OF assms(1), of _ "for_session tm"])
  have r: "sessionTimers st (for_session tm) = Some t" by (rule timers_wf_recorded[OF assms(1,2)])
  show "pending st' = (case sessionTimers st (for_session tm) of None \<Rightarrow> pending st | Some t \<Rightarrow> (pending st)(t := None))"
    using assms(3) r
    by (auto simp: ttl_expired_def try_catch_ignore_def transport_close_def console_log_def Let_def split: if_splits sum.splits)
  show "sessionTimers st' = (sessionTimers st)(for_session tm := None)"
    using assms(3)
    by (auto simp: ttl_expired_def try_catch_ignore_def transport_close_def console_log_def Let_def split: if_splits sum.splits)
  show "next_timer st' = next_timer st"
    using assms(3)
    by (auto simp: ttl_expired_def try_catch_ignore_def transport_close_def console_log_def Let_def split: if_splits sum.splits)
qed

lemma timers_wf_fire: "timers_wf st \<Longrightarrow> fire t st = Some (Inr st') \<Longrightarrow> timers_wf st'"
  by (auto simp: fire_def split: option.splits if_splits dest: timers_wf_ttl)

lemma timers_wf_session_closed:
  assumes "timers_wf st" "session_closed tr st = Inr st'"
  shows "timers_wf st'"
proof (cases "transport_sessionId st tr = None \<or> transport_sessionId st tr = Some []")
  case True then show ?thesis using assms by (auto simp: session_closed_def)
next
  case False
  then obtain s where s: "transport_sessionId st tr = Some s" "s \<noteq> []" by auto
  show ?thesis
    by (rule timers_wf_forget[OF assms(1), of _ s])
       (use assms(2) s in \<open>auto simp: session_closed_def try_catch_ignore_def transport_close_def
          console_log_def clearTimeout_def Let_def split: if_splits sum.splits option.splits\<close>)
qed

lemma timers_wf_init: "timers_wf st \<Longrightarrow> timers_wf (sdk_initialize tr sid st)"
proof -
  assume a: "timers_wf st"
  let ?st1 = "st\<lparr>transport_sessionId := (transport_sessionId st)(tr := Some sid)\<rparr>
                \<lparr>sessions := (sessions st)(sid \<mapsto> tr)\<rparr>"
  have "timers_wf ?st1" using a by (simp add: timers_wf_def)
  then have "timers_wf (touchSession (Some sid) tr ?st1)" by (rule timers_wf_touch)
  then show ?thesis
    by (simp add: sdk_initialize_def onsessioninitialized_def Let_def console_log_def timers_wf_def)
qed

lemma timers_wf_post: "timers_wf st \<Longrightarrow> post_mcp fj i c req st = (p, st') \<Longrightarrow> timers_wf st'"
  unfolding post_mcp_def mcp_error_def console_log_def
  by (auto simp: Let_def timers_wf_touch split: option.splits if_splits exn.splits
           elim: timers_wf_frame[rotated 3])

lemma timers_wf_session_req:
  "timers_wf st \<Longrightarrow> handleSessionReq req st = (p, st') \<Longrightarrow> timers_wf st'"
  unfolding handleSessionReq_def
  by (auto simp: timers_wf_touch split: option.splits)

lemma timers_wf_post_closed: "timers_wf st \<Longrightarrow> timers_wf (post_closed tr st)"
  by (auto simp: post_closed_def console_log_def timers_wf_def split: option.splits)

lemma reachable_timers_wf: "reachable st \<Longrightarrow> timers_wf st"
proof (induction rule: reachable.induct)
  case (start ct) show ?case by (rule timers_wf_initial)
next
  case (tick st d) then show ?case by (simp add: advance_def timers_wf_def)
next
  case (timer st t st') then show ?case by (blast intro: timers_wf_fire)
next
  case (post st fj i c req p st') then show ?case by (blast intro: timers_wf_post)
next
  case (init st sid tr) then show ?case by (simp add: timers_wf_init)
next
  case (post_close st tr) then show ?case by (simp add: timers_wf_post_closed)
next
  case (post_done st tr) then show ?case by (simp add: post_handled_def timers_wf_touch)
next
  case (session_req st req p st') then show ?case by (blast intro: timers_wf_session_req)
next
  case (session_close st tr st') then show ?case by (blast intro: timers_wf_session_closed)
next
  case (failed st e) then show ?case
    by (cases e) (simp add: mcp_error_def console_log_def timers_wf_def)
qed

lemma registered_touch: "registered st \<Longrightarrow> registered (touchSession sid tr st)"
  by (auto simp: registered_def touchSession_def setTimeout_def clearTimeout_def Let_def
           split: option.splits)

lemma registered_init: "registered st \<Longrightarrow> sid \<noteq> [] \<Longrightarrow> registered (sdk_initialize tr sid st)"
  by (auto simp: registered_def sdk_initialize_def onsessioninitialized_def touchSession_def
        setTimeout_def clearTimeout_def console_log_def Let_def split: option.splits)

lemma registered_ttl: "registered st \<Longrightarrow> ttl_expired sid tr st = Inr st' \<Longrightarrow> registered st'"
  by (auto simp: registered_def ttl_expired_def try_catch_ignore_def transport_close_def
        console_log_def Let_def split: if_splits sum.splits)

lemma registered_fire:
  assumes "registered st" "fire t st = Some (Inr st')"
  shows "registered st'"
proof -
  from assms(2) obtain sid tr where
    e: "ttl_expired sid tr (st\<lparr>pending := (pending st)(t := None)\<rparr>) = Inr st'"
    by (auto simp: fire_def split: option.splits if_splits)
  have "registered (st\<lparr>pending := (pending st)(t := None)\<rparr>)"
    using assms(1) by (simp add: registered_def)
  then show ?thesis using e by (rule registered_ttl)
qed

lemma registered_session_closed:
  "registered st \<Longrightarrow> session_closed tr st = Inr st' \<Longrightarrow> registered st'"
  by (auto simp: registered_def session_closed_def try_catch_ignore_def transport_close_def
        console_log_def clearTimeout_def Let_def split: if_splits sum.splits option.splits)

lemma registered_post: "registered st \<Longrightarrow> post_mcp fj i c req st = (p, st') \<Longrightarrow> registered st'"
  unfolding post_mcp_def mcp_error_def console_log_def
  by (auto simp: Let_def registered_touch split: option.splits if_splits exn.splits)
     (auto simp: registered_def)

lemma registered_session_req:
  "registered st \<Longrightarrow> handleSessionReq req st = (p, st') \<Longrightarrow> registered st'"
  by (auto simp: handleSessionReq_def registered_touch split: option.splits)

lemma reachable_registered: "reachable st \<Longrightarrow> registered st"
proof (induction rule: reachable.induct)
  case (start ct) show ?case by (simp add: registered_def initial_def)
next
  case (tick st d) then show ?case by (simp add: advance_def registered_def)
next
  case (timer st t st') then show ?case by (blast intro: registered_fire)
next
  case (post st fj i c req p st') then show ?case by (blast intro: registered_post)
next
  case (init st sid tr) then show ?case by (simp add: registered_init)
next
  case (post_close st tr) then show ?case
    by (auto simp: post_closed_def console_log_def registered_def split: option.splits)
next
  case (post_done st tr) then show ?case by (simp add: post_handled_def registered_touch)
next
  case (session_req st req p st') then show ?case by (blast intro: registered_session_req)
next
  case (session_close st tr st') then show ?case by (blast intro: registered_session_closed)
next
  case (failed st e) then show ?case
    by (cases e) (simp add: mcp_error_def console_log_def registered_def)
qed

lemma sessions_wf_touch: "sessions_wf st \<Longrightarrow> sessions_wf (touchSession sid tr st)"
  by (auto simp: sessions_wf_def touchSession_def setTimeout_def clearTimeout_def Let_def
           split: option.splits)

lemma sessions_wf_init:
  "sessions_wf st \<Longrightarrow> transport_sessionId st tr = None \<Longrightarrow> sid \<noteq> [] \<Longrightarrow>
   sessions_wf (sdk_initialize tr sid st)"
  by (auto simp: sessions_wf_def sdk_initialize_def onsessioninitialized_def touchSession_def
        setTimeout_def clearTimeout_def console_log_def Let_def split: option.splits)

lemma sessions_wf_ttl: "sessions_wf st \<Longrightarrow> ttl_expired sid tr st = Inr st' \<Longrightarrow> sessions_wf st'"
  by (auto simp: sessions_wf_def ttl_expired_def try_catch_ignore_def transport_close_def
        console_log_def Let_def split: if_splits sum.splits) blast+

lemma sessions_wf_fire:
  assumes "sessions_wf st" "fire t st = Some (Inr st')"
  shows "sessions_wf st'"
proof -
  from assms(2) obtain sid tr where
    e: "ttl_expired sid tr (st\<lparr>pending := (pending st)(t := None)\<rparr>) = Inr st'"
    by (auto simp: fire_def split: option.splits if_splits)
  have "sessions_wf (st\<lparr>pending := (pending st)(t := None)\<rparr>)"
    using assms(1) by (simp add: sessions_wf_def)
  then show ?thesis using e by (rule sessions_wf_ttl)
qed

lemma sessions_wf_session_closed:
  "sessions_wf st \<Longrightarrow> session_closed tr st = Inr st' \<Longrightarrow> sessions_wf st'"
  by (auto simp: sessions_wf_def session_closed_def try_catch_ignore_def transport_close_def
        console_log_def clearTimeout_def Let_def split: if_splits sum.splits option.splits) blast+

lemma sessions_wf_post: "sessions_wf st \<Longrightarrow> post_mcp fj i c req st = (p, st') \<Longrightarrow> sessions_wf st'"
  unfolding post_mcp_def mcp_error_def console_log_def
  by (auto simp: Let_def sessions_wf_touch split: option.splits if_splits exn.splits)
     (auto simp: sessions_wf_def)

lemma sessions_wf_session_req:
  "sessions_wf st \<Longrightarrow> handleSessionReq req st = (p, st') \<Longrightarrow> sessions_wf st'"
  by (auto simp: handleSessionReq_def sessions_wf_touch split: option.splits)

lemma reachable_sessions_wf: "reachable st \<Longrightarrow> sessions_wf st"
proof (induction rule: reachable.induct)
  case (start ct) show ?case by (simp add: sessions_wf_def initial_def)
next
  case (tick st d) then show ?case by (simp add: advance_def sessions_wf_def)
next
  case (timer st t st') then show ?case by (blast intro: sessions_wf_fire)
next
  case (post st fj i c req p st') then show ?case by (blast intro: sessions_wf_post)
next
  case (init st tr sid) then show ?case by (simp add: sessions_wf_init)
next
  case (post_close st tr) then show ?case
    by (auto simp: post_closed_def console_log_def sessions_wf_def split: option.splits)
next
  case (post_done st tr) then show ?case by (simp add: post_handled_def sessions_wf_touch)
next
  case (session_req st req p st') then show ?case by (blast intro: sessions_wf_session_req)
next
  case (session_close st tr st') then show ?case by (blast intro: sessions_wf_session_closed)
next
  case (failed st e) then show ?case
    by (cases e) (simp add: mcp_error_def console_log_def sessions_wf_def)
qed

lemmas run_defs =
  one_session_def init_request_def session_request_def initial_def post_mcp_def
  ensure_accept_def lookup_def headerId_def req_get_def js_or_def sdk_initialize_def
  onsessioninitialized_def touchSession_def setTimeout_def clearTimeout_def console_log_def
  serve_session_req_def handleSessionReq_def session_closed_def try_catch_ignore_def
  transport_close_def post_handled_def post_closed_def TTL_MS_def entries_def
  entries_after_def lookup_after_def unhandled_after_def step_def fire_def ttl_expired_def
  advance_def get_dropped_during_post_def failing_close_def mcp_error_def

lemma post_closed_frame:
  "sessions (post_closed tr st) = sessions st \<and> sessionTimers (post_closed tr st) = sessionTimers st \<and>
   pending (post_closed tr st) = pending st \<and> closed (post_closed tr st) = closed st"
  by (simp add: post_closed_def console_log_def split: option.splits)

lemma try_close_eq:
  "try_catch_ignore (transport_close tr) st =
     Inr (if close_rejects st tr then st\<lparr>unhandled := unhandled st @ [Exn ''close failed'']\<rparr>
          else st\<lparr>closed := insert tr (closed st)\<rparr>)"
  by (simp add: try_catch_ignore_def transport_close_def)

lemma session_closed_total: "\<exists>st'. session_closed tr st = Inr st'"
  by (simp add: session_closed_def try_close_eq Let_def split: option.splits)

lemma ttl_expired_total: "\<exists>st'. ttl_expired sid tr st = Inr st'"
  by (simp add: ttl_expired_def try_close_eq Let_def)

lemma session_closed_released:
  assumes wf: "timers_wf st" and s: "transport_sessionId st tr = Some sid" "sid \<noteq> []"
  shows "\<exists>st'. session_closed tr st = Inr st' \<and> released sid st' \<and>
           (\<not> close_rejects st tr \<longrightarrow> tr \<in> closed st')"
proof -
  obtain st' where e: "session_closed tr st = Inr st'"
    using session_closed_total by blast
  have wf': "timers_wf st'" by (rule timers_wf_session_closed[OF wf e])
  have m: "sessions st' sid = None" "sessionTimers st' sid = None"
    using e s
    by (auto simp: session_closed_def try_close_eq console_log_def
          clearTimeout_def Let_def split: if_splits option.splits)
  have c: "\<not> close_rejects st tr \<longrightarrow> tr \<in> closed st'"
    using e s
    by (auto simp: session_closed_def try_close_eq console_log_def
          clearTimeout_def Let_def split: if_splits option.splits)
  have "released sid st'"
    unfolding released_def using m timers_wf_recorded[OF wf'] by fastforce
  then show ?thesis using e c by blast
qed

lemma touch_frame:
  "sessions (touchSession s tr st) = sessions st \<and>
   transport_sessionId (touchSession s tr st) = transport_sessionId st \<and>
   close_rejects (touchSession s tr st) = close_rejects st \<and>
   closed (touchSession s tr st) = closed st \<and> now (touchSession s tr st) = now st"
  by (simp add: touchSession_def setTimeout_def clearTimeout_def Let_def split: option.splits)

lemma serve_session_req_releases:
  assumes r: "reachable st" and l: "lookup req st = Some tr" and sid: "headerId req = Str sid"
  shows "\<exists>st'. serve_session_req req st = Inr st' \<and> released sid st' \<and>
           (\<not> close_rejects st tr \<longrightarrow> tr \<in> closed st')"
proof -
  have reg: "sessions st sid = Some tr" using l sid by (simp add: lookup_def split: if_splits)
  then have ts: "transport_sessionId st tr = Some sid" "sid \<noteq> []"
    using reachable_sessions_wf[OF r] by (auto simp: sessions_wf_def)
  let ?st1 = "touchSession (transport_sessionId st tr) tr st"
  have h: "handleSessionReq req st = (Handling tr req, ?st1)"
    using l by (simp add: handleSessionReq_def)
  have wf1: "timers_wf ?st1" by (rule timers_wf_touch[OF reachable_timers_wf[OF r]])
  have ts1: "transport_sessionId ?st1 tr = Some sid" using ts touch_frame by simp
  from session_closed_released[OF wf1 ts1 ts(2)]
  show ?thesis using h touch_frame[of "transport_sessionId st tr" tr st]
    by (simp add: serve_session_req_def)
qed

lemma reachable_initial: "reachable initial"
  using reachable.start[of "\<lambda>_. False"] by (simp add: initial_def)

lemma reachable_one_session: "reachable one_session"
  unfolding one_session_def
proof (rule reachable.init)
  show "reachable (snd (post_mcp False None None init_request initial))"
    by (rule reachable.post[OF reachable_initial, of False None None init_request
          "fst (post_mcp False None None init_request initial)"]) simp
  show "transport_sessionId (snd (post_mcp False None None init_request initial)) 0 = None"
    by (simp add: run_defs js_string_defs Let_def)
  show "''s1'' \<noteq> []" by simp
qed

lemma one_session_found:
  "lookup (session_request m ''s1'') one_session = Some 0 \<and>
   headerId (session_request m ''s1'') = Str ''s1''"
  by (simp add: run_defs js_string_defs Let_def)

lemma touch_keeps:
  "sessions (touchSession s tr st) = sessions st \<and> closed (touchSession s tr st) = closed st \<and>
   (sessionTimers st sid \<noteq> None \<longrightarrow> sessionTimers (touchSession s tr st) sid \<noteq> None)"
  by (simp add: touchSession_def setTimeout_def clearTimeout_def Let_def split: option.splits)

lemma post_mcp_keeps:
  "sessions (snd (post_mcp fj i c req st)) = sessions st \<and>
   closed (snd (post_mcp fj i c req st)) = closed st \<and>
   (sessionTimers st sid \<noteq> None \<longrightarrow> sessionTimers (snd (post_mcp fj i c req st)) sid \<noteq> None)"
  using touch_keeps[of _ _ st sid]
  by (auto simp: post_mcp_def mcp_error_def console_log_def Let_def
           split: option.splits exn.splits)

lemma handleSessionReq_keeps:
  "sessions (snd (handleSessionReq req st)) = sessions st \<and>
   closed (snd (handleSessionReq req st)) = closed st \<and>
   (sessionTimers st sid \<noteq> None \<longrightarrow> sessionTimers (snd (handleSessionReq req st)) sid \<noteq> None)"
  using touch_keeps[of _ _ st sid]
  by (auto simp: handleSessionReq_def split: option.splits)

lemma init_keeps:
  "sessions (sdk_initialize tr s st) = (sessions st)(s \<mapsto> tr) \<and>
   closed (sdk_initialize tr s st) = closed st \<and>
   (sessionTimers st sid \<noteq> None \<longrightarrow> sessionTimers (sdk_initialize tr s st) sid \<noteq> None)"
  using touch_keeps[of "Some s" tr _ sid]
  by (simp add: sdk_initialize_def onsessioninitialized_def console_log_def Let_def)

lemma ttl_expired_maps:
  "ttl_expired s tr st = Inr st' \<Longrightarrow>
   sessions st' = (sessions st)(s := None) \<and> sessionTimers st' = (sessionTimers st)(s := None) \<and>
   pending st' = pending st \<and>
   closed st' = (if close_rejects st tr then closed st else insert tr (closed st))"
  by (auto simp: ttl_expired_def try_close_eq console_log_def Let_def split: if_splits)

lemma session_closed_maps:
  assumes "session_closed tr st = Inr st'"
  shows "(case transport_sessionId st tr of
            None \<Rightarrow> st' = st
          | Some s \<Rightarrow>
              if s = [] then st' = st
              else sessions st' = (sessions st)(s := None) \<and>
                   sessionTimers st' = (sessionTimers st)(s := None) \<and>
                   closed st' = (if close_rejects st tr then closed st else insert tr (closed st)))"
  using assms
  by (auto simp: session_closed_def try_close_eq console_log_def clearTimeout_def Let_def
           split: if_splits option.splits)

lemma step_releases_only:
  assumes "step ev st = Some st'"
    and "sessions st sid \<noteq> None \<and> sessions st' sid = None \<or>
         sessionTimers st sid \<noteq> None \<and> sessionTimers st' sid = None"
  shows "releases sid st ev"
proof (cases ev)
  case (Tick d) then show ?thesis using assms by (auto simp: step_def advance_def)
next
  case (Fire t)
  then obtain tm where p: "pending st t = Some tm"
    and e: "ttl_expired (for_session tm) (for_transport tm)
              (st\<lparr>pending := (pending st)(t := None)\<rparr>) = Inr st'"
    using assms(1) by (auto simp: step_def fire_def split: option.splits if_splits sum.splits)
  from ttl_expired_maps[OF e] assms(2) have "for_session tm = sid"
    by (auto split: if_splits)
  then show ?thesis using Fire p by (simp add: releases_def)
next
  case (Post fj i c req)
  then show ?thesis using assms post_mcp_keeps[of fj i c req st sid] by (auto simp: step_def)
next
  case (Init tr s)
  then show ?thesis using assms init_keeps[of tr s st sid]
    by (auto simp: step_def split: if_splits)
next
  case (PostClose tr)
  then show ?thesis using assms
    by (auto simp: step_def post_closed_def console_log_def split: option.splits if_splits)
next
  case (PostDone tr)
  then show ?thesis using assms touch_keeps[of "transport_sessionId st tr" tr st sid]
    by (auto simp: step_def post_handled_def)
next
  case (SessionReq req)
  then show ?thesis using assms handleSessionReq_keeps[of req st sid] by (auto simp: step_def)
next
  case (SessionClose tr)
  then have e: "session_closed tr st = Inr st'"
    using assms(1) by (auto simp: step_def split: sum.splits)
  from session_closed_maps[OF e] assms(2) have "transport_sessionId st tr = Some sid"
    by (auto split: option.splits if_splits)
  then show ?thesis using SessionClose by (simp add: releases_def)
next
  case (Failed e)
  then show ?thesis using assms
    by (cases e) (auto simp: step_def mcp_error_def console_log_def)
qed

lemma step_closes_only:
  assumes "step ev st = Some st'" and "tr \<notin> closed st" and "tr \<in> closed st'"
  shows "closes tr st ev"
proof (cases ev)
  case (Tick d) then show ?thesis using assms by (auto simp: step_def advance_def)
next
  case (Fire t)
  then obtain tm where p: "pending st t = Some tm"
    and e: "ttl_expired (for_session tm) (for_transport tm)
              (st\<lparr>pending := (pending st)(t := None)\<rparr>) = Inr st'"
    using assms(1) by (auto simp: step_def fire_def split: option.splits if_splits sum.splits)
  from ttl_expired_maps[OF e] assms(2,3) have "for_transport tm = tr"
    by (auto split: if_splits)
  then show ?thesis using Fire p by (simp add: closes_def)
next
  case (Post fj i c req)
  then show ?thesis using assms post_mcp_keeps[of fj i c req st] by (auto simp: step_def)
next
  case (Init tr' s)
  then show ?thesis using assms init_keeps[of tr' s st]
    by (auto simp: step_def split: if_splits)
next
  case (PostClose tr')
  then show ?thesis using assms
    by (auto simp: step_def post_closed_def console_log_def split: option.splits if_splits)
next
  case (PostDone tr')
  then show ?thesis using assms touch_keeps[of "transport_sessionId st tr'" tr' st]
    by (auto simp: step_def post_handled_def)
next
  case (SessionReq req)
  then show ?thesis using assms handleSessionReq_keeps[of req st] by (auto simp: step_def)
next
  case (SessionClose tr')
  then have e: "session_closed tr' st = Inr st'"
    using assms(1) by (auto simp: step_def split: sum.splits)
  from session_closed_maps[OF e] assms(2,3) have "tr' = tr"
    by (auto split: option.splits if_splits)
  then show ?thesis using SessionClose by (simp add: closes_def)
next
  case (Failed e)
  then show ?thesis using assms
    by (cases e) (auto simp: step_def mcp_error_def console_log_def)
qed

lemma fire_releases:
  assumes wf: "timers_wf st" and p: "pending st t = Some tm" and d: "due tm \<le> now st"
  shows "\<exists>st'. fire t st = Some (Inr st') \<and> released (for_session tm) st' \<and>
           (\<not> close_rejects st (for_transport tm) \<longrightarrow> for_transport tm \<in> closed st')"
proof -
  obtain st' where e: "ttl_expired (for_session tm) (for_transport tm)
                         (st\<lparr>pending := (pending st)(t := None)\<rparr>) = Inr st'"
    using ttl_expired_total by blast
  then have f: "fire t st = Some (Inr st')" using p d by (simp add: fire_def)
  have wf': "timers_wf st'" by (rule timers_wf_fire[OF wf f])
  note m = ttl_expired_maps[OF e]
  have "released (for_session tm) st'"
    unfolding released_def using m timers_wf_recorded[OF wf'] by fastforce
  moreover have "\<not> close_rejects st (for_transport tm) \<longrightarrow> for_transport tm \<in> closed st'"
    using m by simp
  ultimately show ?thesis using f by blast
qed

lemma init_facts:
  assumes "sid \<noteq> []"
  shows "sessions (sdk_initialize tr sid st) sid = Some tr \<and>
         sessionTimers (sdk_initialize tr sid st) sid = Some (next_timer st) \<and>
         pending (sdk_initialize tr sid st) (next_timer st) =
           Some \<lparr>due = now st + TTL_MS, for_session = sid, for_transport = tr\<rparr> \<and>
         now (sdk_initialize tr sid st) = now st"
  using assms
  by (simp add: sdk_initialize_def onsessioninitialized_def touchSession_def setTimeout_def
        clearTimeout_def console_log_def Let_def split: option.splits)

lemma lookup_by_header: "headerId req = Str sid \<Longrightarrow> sid \<noteq> [] \<Longrightarrow> lookup req st = sessions st sid"
  by (simp add: lookup_def)


lemma liveD:
  assumes "live sid tr T st"
  shows "sessions st sid = Some tr"
    and "\<And>tr'. transport_sessionId st tr' = Some sid \<Longrightarrow> tr' = tr"
    and "\<And>t tm. pending st t = Some tm \<Longrightarrow> for_session tm = sid \<Longrightarrow> T \<le> due tm"
    and "T \<le> now st + TTL_MS"
  using assms unfolding live_def by blast+

lemma liveI:
  assumes "sessions st sid = Some tr"
    and "\<And>tr'. transport_sessionId st tr' = Some sid \<Longrightarrow> tr' = tr"
    and "\<And>t tm. pending st t = Some tm \<Longrightarrow> for_session tm = sid \<Longrightarrow> T \<le> due tm"
    and "T \<le> now st + TTL_MS"
  shows "live sid tr T st"
  unfolding live_def using assms by blast

lemma live_frame:
  assumes l: "live sid tr T st" and "sessions st' sid = sessions st sid"
    and "transport_sessionId st' = transport_sessionId st"
    and p: "\<And>t tm. pending st' t = Some tm \<Longrightarrow> for_session tm = sid \<Longrightarrow>
           pending st t = Some tm \<or> T \<le> due tm"
    and "now st \<le> now st'"
  shows "live sid tr T st'"
proof (rule liveI)
  show "sessions st' sid = Some tr" using liveD(1)[OF l] assms(2) by simp
  show "\<And>tr'. transport_sessionId st' tr' = Some sid \<Longrightarrow> tr' = tr"
    using liveD(2)[OF l] assms(3) by simp
  show "\<And>t tm. pending st' t = Some tm \<Longrightarrow> for_session tm = sid \<Longrightarrow> T \<le> due tm"
    using p liveD(3)[OF l] by blast
  show "T \<le> now st' + TTL_MS" using liveD(4)[OF l] assms(5) by simp
qed

lemma touch_pending:
  assumes "pending (touchSession s tr st) t = Some tm"
  shows "pending st t = Some tm \<or> due tm = now st + TTL_MS"
  using assms
  by (auto simp: touchSession_def setTimeout_def clearTimeout_def Let_def
           split: option.splits if_splits)

lemma live_touch:
  assumes "live sid tr T st"
  shows "live sid tr T (touchSession s tr' st)"
proof (rule live_frame[OF assms])
  show "sessions (touchSession s tr' st) sid = sessions st sid"
    using touch_frame[of s tr' st] by simp
  show "transport_sessionId (touchSession s tr' st) = transport_sessionId st"
    using touch_frame[of s tr' st] by simp
  show "now st \<le> now (touchSession s tr' st)" using touch_frame[of s tr' st] by simp
  fix t tm assume "pending (touchSession s tr' st) t = Some tm"
  from touch_pending[OF this] liveD(4)[OF assms]
  show "pending st t = Some tm \<or> T \<le> due tm" by auto
qed

lemma live_log:
  assumes "live sid tr T st"
  shows "live sid tr T (console_log e st)"
  by (rule live_frame[OF assms]) (simp_all add: console_log_def)

lemma live_post:
  assumes "live sid tr T st"
  shows "live sid tr T (snd (post_mcp fj i c req st))"
proof -
  have n: "live sid tr T (st\<lparr>next_transport := Suc (next_transport st)\<rparr>)"
    by (rule live_frame[OF assms]) simp_all
  show ?thesis
  proof (cases i)
    case (Some e)
    then show ?thesis using live_log[OF assms] by (cases e) (simp add: post_mcp_def mcp_error_def)
  next
    case None
    show ?thesis
    proof (cases "lookup (ensure_accept fj req) st")
      case (Some tr')
      then show ?thesis using None live_touch[OF assms] by (simp add: post_mcp_def Let_def)
    next
      case nl: None
      show ?thesis
      proof (cases c)
        case None
        then show ?thesis using \<open>i = None\<close> nl assms n by (simp add: post_mcp_def Let_def)
      next
        case (Some e)
        then show ?thesis using \<open>i = None\<close> nl assms live_log[OF n]
          by (cases e) (simp add: post_mcp_def mcp_error_def Let_def)
      qed
    qed
  qed
qed

lemma live_session_req:
  assumes "live sid tr T st"
  shows "live sid tr T (snd (handleSessionReq req st))"
  using assms live_touch[OF assms]
  by (cases "lookup req st") (simp_all add: handleSessionReq_def)

lemma live_init:
  assumes l: "live sid tr T st" and e: "transport_sessionId st tr' = None" "sessions st s = None"
  shows "live sid tr T (sdk_initialize tr' s st)"
proof -
  let ?st1 = "st\<lparr>transport_sessionId := (transport_sessionId st)(tr' := Some s)\<rparr>
                \<lparr>sessions := (sessions st)(s \<mapsto> tr')\<rparr>"
  have ne: "s \<noteq> sid" using liveD(1)[OF l] e(2) by auto
  have "live sid tr T ?st1"
  proof (rule liveI)
    show "sessions ?st1 sid = Some tr" using liveD(1)[OF l] ne by simp
    show "\<And>x. transport_sessionId ?st1 x = Some sid \<Longrightarrow> x = tr"
      using liveD(2)[OF l] ne by (simp split: if_splits)
    show "\<And>t tm. pending ?st1 t = Some tm \<Longrightarrow> for_session tm = sid \<Longrightarrow> T \<le> due tm"
      using liveD(3)[OF l] by simp
    show "T \<le> now ?st1 + TTL_MS" using liveD(4)[OF l] by simp
  qed
  from live_log[OF live_touch[OF this]] show ?thesis
    by (simp add: sdk_initialize_def onsessioninitialized_def Let_def)
qed

lemma ttl_expired_frame:
  "ttl_expired s tr st = Inr st' \<Longrightarrow>
   transport_sessionId st' = transport_sessionId st \<and> now st' = now st"
  by (auto simp: ttl_expired_def try_close_eq console_log_def Let_def split: if_splits)

lemma live_fire:
  assumes l: "live sid tr T st" and f: "fire t st = Some (Inr st')" and w: "now st' < T"
  shows "live sid tr T st'"
proof -
  from f obtain tm where p: "pending st t = Some tm" and d: "due tm \<le> now st"
    and e: "ttl_expired (for_session tm) (for_transport tm)
              (st\<lparr>pending := (pending st)(t := None)\<rparr>) = Inr st'"
    by (auto simp: fire_def split: option.splits if_splits)
  note m = ttl_expired_maps[OF e] and fr = ttl_expired_frame[OF e]
  have ne: "for_session tm \<noteq> sid"
  proof
    assume "for_session tm = sid"
    then have "T \<le> due tm" using liveD(3)[OF l p] by simp
    then show False using d w fr by simp
  qed
  show ?thesis
  proof (rule live_frame[OF l])
    show "sessions st' sid = sessions st sid" using m ne by simp
    show "transport_sessionId st' = transport_sessionId st" using fr by simp
    show "now st \<le> now st'" using fr by simp
    fix u tmu assume "pending st' u = Some tmu"
    then show "pending st u = Some tmu \<or> T \<le> due tmu" using m by (auto split: if_splits)
  qed
qed

lemma session_closed_frame:
  "session_closed tr st = Inr st' \<Longrightarrow>
   transport_sessionId st' = transport_sessionId st \<and> now st' = now st \<and>
   (\<forall>t tm. pending st' t = Some tm \<longrightarrow> pending st t = Some tm)"
  by (auto simp: session_closed_def try_close_eq console_log_def clearTimeout_def Let_def
           split: if_splits option.splits)

lemma live_session_closed:
  assumes l: "live sid tr T st" and c: "session_closed tr' st = Inr st'" and ne: "tr' \<noteq> tr"
  shows "live sid tr T st'"
proof (rule live_frame[OF l])
  note fr = session_closed_frame[OF c]
  have "transport_sessionId st tr' \<noteq> Some sid" using liveD(2)[OF l] ne by blast
  then show "sessions st' sid = sessions st sid"
    using session_closed_maps[OF c] by (auto split: option.splits if_splits)
  show "transport_sessionId st' = transport_sessionId st" using fr by simp
  show "now st \<le> now st'" using fr by simp
  fix t tm assume "pending st' t = Some tm"
  then show "pending st t = Some tm \<or> T \<le> due tm" using fr by blast
qed

lemma step_clock: "step ev st = Some st' \<Longrightarrow> now st \<le> now st'"
proof (cases ev)
  case (Fire t)
  assume "step ev st = Some st'"
  then obtain s tr where "ttl_expired s tr (st\<lparr>pending := (pending st)(t := None)\<rparr>) = Inr st'"
    using Fire by (auto simp: step_def fire_def split: option.splits if_splits sum.splits)
  from ttl_expired_frame[OF this] show ?thesis by simp
next
  case (SessionClose tr)
  assume "step ev st = Some st'"
  then have "session_closed tr st = Inr st'"
    using SessionClose by (auto simp: step_def split: sum.splits)
  from session_closed_frame[OF this] show ?thesis by simp
next
  case (Post fj i c req)
  assume "step ev st = Some st'"
  then show ?thesis using Post touch_frame[of _ _ st]
    by (auto simp: step_def post_mcp_def mcp_error_def console_log_def Let_def
             split: option.splits exn.splits)
next
  case (Init tr s)
  assume "step ev st = Some st'"
  then show ?thesis using Init init_facts[of s tr st]
    by (auto simp: step_def split: if_splits)
next
  case (SessionReq req)
  assume "step ev st = Some st'"
  then show ?thesis using SessionReq touch_frame[of _ _ st]
    by (auto simp: step_def handleSessionReq_def split: option.splits)
next
  case (PostDone tr)
  assume "step ev st = Some st'"
  then show ?thesis using PostDone touch_frame[of _ tr st]
    by (auto simp: step_def post_handled_def)
next
  case (Failed e)
  assume "step ev st = Some st'"
  then show ?thesis using Failed
    by (cases e) (auto simp: step_def mcp_error_def console_log_def)
qed (auto simp: step_def advance_def post_closed_def console_log_def split: option.splits if_splits)

lemma live_step:
  assumes l: "live sid tr T st" and s: "step ev st = Some st'" and ne: "ev \<noteq> SessionClose tr"
    and w: "now st' < T"
  shows "live sid tr T st'"
proof (cases ev)
  case (Tick d)
  then show ?thesis using l s by (auto simp: step_def advance_def live_def)
next
  case (Fire t)
  then have "fire t st = Some (Inr st')"
    using s by (auto simp: step_def split: option.splits sum.splits)
  then show ?thesis using live_fire[OF l _ w] by blast
next
  case (Post fj i c req)
  then show ?thesis using s live_post[OF l] by (auto simp: step_def)
next
  case (Init tr' s')
  then show ?thesis using s live_init[OF l] by (auto simp: step_def split: if_splits)
next
  case (PostClose tr')
  then have "st' = st \<or> (\<exists>e. st' = console_log e st)"
    using s by (auto simp: step_def post_closed_def split: option.splits if_splits)
  then show ?thesis using l live_log[OF l] by auto
next
  case (PostDone tr')
  then show ?thesis using s live_touch[OF l] by (auto simp: step_def post_handled_def)
next
  case (SessionReq req)
  then show ?thesis using s live_session_req[OF l] by (auto simp: step_def)
next
  case (SessionClose tr')
  then have "session_closed tr' st = Inr st'" "tr' \<noteq> tr"
    using s ne by (auto simp: step_def split: sum.splits)
  then show ?thesis using live_session_closed[OF l] by blast
next
  case (Failed e)
  then show ?thesis using s live_log[OF l]
    by (cases e) (auto simp: step_def mcp_error_def)
qed

lemma run_clock: "run evs st = Some st' \<Longrightarrow> now st \<le> now st'"
proof (induction evs arbitrary: st)
  case Nil then show ?case by simp
next
  case (Cons ev evs)
  then obtain st1 where a: "step ev st = Some st1" "run evs st1 = Some st'"
    by (auto split: option.splits)
  then show ?case using step_clock[OF a(1)] Cons.IH[OF a(2)] by simp
qed

lemma live_run:
  assumes "live sid tr T st" and "run evs st = Some st'" and "SessionClose tr \<notin> set evs"
    and "now st' < T"
  shows "live sid tr T st'"
  using assms
proof (induction evs arbitrary: st)
  case Nil then show ?case by simp
next
  case (Cons ev evs)
  then obtain st1 where a: "step ev st = Some st1" "run evs st1 = Some st'"
    by (auto split: option.splits)
  have "now st1 < T" using run_clock[OF a(2)] Cons.prems(4) by simp
  then have "live sid tr T st1" using live_step[OF Cons.prems(1) a(1)] Cons.prems(3) by auto
  then show ?case using Cons.IH[OF _ a(2)] Cons.prems by auto
qed

lemma step_reachable: "reachable st \<Longrightarrow> step ev st = Some st' \<Longrightarrow> reachable st'"
proof (cases ev)
  case (Post fj i c req)
  assume "reachable st" "step ev st = Some st'"
  then show ?thesis using Post reachable.post[of st fj i c req "fst (post_mcp fj i c req st)" st']
    by (auto simp: step_def)
next
  case (SessionReq req)
  assume "reachable st" "step ev st = Some st'"
  then show ?thesis
    using SessionReq reachable.session_req[of st req "fst (handleSessionReq req st)" st']
    by (auto simp: step_def)
qed (auto simp: step_def split: option.splits sum.splits if_splits
          intro: reachable.tick reachable.timer reachable.init reachable.post_close
                 reachable.post_done reachable.session_close reachable.failed)

lemma run_reachable: "reachable st \<Longrightarrow> run evs st = Some st' \<Longrightarrow> reachable st'"
  by (induction evs arbitrary: st) (auto split: option.splits dest: step_reachable)

lemma init_transport_ids:
  "transport_sessionId (sdk_initialize tr sid st) = (transport_sessionId st)(tr := Some sid)"
  using touch_frame[of "Some sid" tr]
  by (simp add: sdk_initialize_def onsessioninitialized_def console_log_def Let_def)

lemma live_init_state:
  assumes r: "reachable st0" and n: "transport_sessionId st0 tr = None"
    and f: "\<forall>tr'. transport_sessionId st0 tr' \<noteq> Some sid" and s: "sid \<noteq> []"
  shows "live sid tr (now st0 + TTL_MS) (sdk_initialize tr sid st0)"
proof (rule liveI)
  let ?s = "sdk_initialize tr sid st0"
  note i = init_facts[OF s, of tr st0]
  have wf: "timers_wf ?s" by (rule reachable_timers_wf[OF reachable.init[OF r n s]])
  show "sessions ?s sid = Some tr" using i by simp
  show "\<And>tr'. transport_sessionId ?s tr' = Some sid \<Longrightarrow> tr' = tr"
    using f by (simp add: init_transport_ids split: if_splits)
  show "now st0 + TTL_MS \<le> now ?s + TTL_MS" using i by simp
  fix t tm assume p: "pending ?s t = Some tm" and fs: "for_session tm = sid"
  have "sessionTimers ?s sid = Some t" using timers_wf_recorded[OF wf p] fs by simp
  then have "t = next_timer st0" using i by simp
  then show "now st0 + TTL_MS \<le> due tm" using p i by auto
qed

section \<open>The claims\<close>

subsection \<open>Connection close and session release\<close>

text \<open>
  C1, as the code has it. The close handler of a POST response only logs: session map,
  timer map, pending timers and transports are as before. The close handler that
  \<open>handleSessionReq\<close> registers serves GET and DELETE alike: when the response of a GET
  or of a DELETE on a live session closes, the session is released (timer cleared, both
  entries removed, close called on the transport, which is closed unless its close
  fails). The expiry of the session's timer releases it in the same way. Nothing else
  does: an event that takes a session entry or a timer entry away is the firing of a
  timer armed for that session or the close of a GET or DELETE response on it, and an
  event that closes a transport is the firing of a timer armed with it or the close of a
  GET or DELETE response on it.
\<close>

theorem session_release_paths:
  "sessions (post_closed tr st) = sessions st \<and>
   sessionTimers (post_closed tr st) = sessionTimers st \<and>
   pending (post_closed tr st) = pending st \<and>
   closed (post_closed tr st) = closed st \<and>
   (reachable st \<and> lookup req st = Some tr \<and> headerId req = Str sid \<longrightarrow>
      (\<exists>st'. serve_session_req req st = Inr st' \<and> released sid st' \<and>
             (\<not> close_rejects st tr \<longrightarrow> tr \<in> closed st'))) \<and>
   (reachable st \<and> pending st t = Some tm \<and> due tm \<le> now st \<longrightarrow>
      (\<exists>st'. fire t st = Some (Inr st') \<and> released (for_session tm) st' \<and>
             (\<not> close_rejects st (for_transport tm) \<longrightarrow> for_transport tm \<in> closed st'))) \<and>
   (step ev st = Some st_next \<and>
    (sessions st sid \<noteq> None \<and> sessions st_next sid = None \<or>
     sessionTimers st sid \<noteq> None \<and> sessionTimers st_next sid = None) \<longrightarrow>
      releases sid st ev) \<and>
   (step ev st = Some st_next \<and> tr \<notin> closed st \<and> tr \<in> closed st_next \<longrightarrow> closes tr st ev)"
  using post_closed_frame[of tr st] serve_session_req_releases[of st req tr sid]
    fire_releases[OF reachable_timers_wf, of st t tm]
    step_releases_only[of ev st st_next sid] step_closes_only[of ev st st_next tr]
  by blast

theorem session_release_paths_witness:
  "sessions (post_closed 0 one_session) ''s1'' = Some 0 \<and>
   (\<exists>st'. serve_session_req (session_request ''DELETE'' ''s1'') one_session = Inr st' \<and>
          released ''s1'' st' \<and> 0 \<in> closed st') \<and>
   (\<exists>st'. fire 0 (advance TTL_MS one_session) = Some (Inr st') \<and> released ''s1'' st' \<and>
          0 \<in> closed st') \<and>
   releases ''s1'' one_session (SessionClose 0) \<and> closes 0 one_session (SessionClose 0)"
proof -
  have c: "\<not> close_rejects one_session 0" "\<not> close_rejects (advance TTL_MS one_session) 0"
    by (simp_all add: run_defs js_string_defs Let_def)
  have s: "sessions one_session ''s1'' = Some 0" "0 \<notin> closed one_session"
    by (simp_all add: run_defs js_string_defs Let_def)
  have p: "pending (advance TTL_MS one_session) 0 =
             Some \<lparr>due = 600000, for_session = ''s1'', for_transport = 0\<rparr> \<and>
           now (advance TTL_MS one_session) = 600000"
    by (simp add: run_defs js_string_defs Let_def)
  have r: "reachable (advance TTL_MS one_session)"
    by (rule reachable.tick[OF reachable_one_session])
  obtain u where u: "session_closed 0 one_session = Inr u" using session_closed_total by blast
  then have su: "step (SessionClose 0) one_session = Some u" by (simp add: step_def)
  have t: "transport_sessionId one_session 0 = Some ''s1''"
    by (simp add: run_defs js_string_defs Let_def)
  have mu: "sessions u ''s1'' = None" "0 \<in> closed u"
    using session_closed_maps[OF u] t c(1) by simp_all
  have a: "\<exists>st'. serve_session_req (session_request ''DELETE'' ''s1'') one_session = Inr st' \<and>
          released ''s1'' st' \<and> 0 \<in> closed st'"
    using session_release_paths[of 0 one_session "session_request ''DELETE'' ''s1''" "''s1''"]
      reachable_one_session one_session_found[of "''DELETE''"] c(1)
    by simp
  have b: "\<exists>st'. fire 0 (advance TTL_MS one_session) = Some (Inr st') \<and> released ''s1'' st' \<and>
          0 \<in> closed st'"
    using session_release_paths[where st = "advance TTL_MS one_session" and t = 0
        and tm = "\<lparr>due = 600000, for_session = ''s1'', for_transport = 0\<rparr>"] r p c(2)
    by simp
  have d: "sessions (post_closed 0 one_session) ''s1'' = Some 0"
    using session_release_paths[of 0 one_session] s by simp
  have e: "releases ''s1'' one_session (SessionClose 0)"
    using session_release_paths[where st = one_session and ev = "SessionClose 0" and st_next = u
        and sid = "''s1''"] su s(1) mu(1) by simp
  have f: "closes 0 one_session (SessionClose 0)"
    using session_release_paths[where st = one_session and ev = "SessionClose 0" and st_next = u
        and tr = 0] su s(2) mu(2) by blast
  show ?thesis using a b d e f by blast
qed

text \<open>
  The claim as worded has a connection close only logged unless a DELETE was issued.
  On the session \<open>s1\<close>, the close of a GET response removes both entries.
\<close>

theorem get_close_counterexample:
  "entries ''s1'' (Inr one_session) = Some (Some 0, Some 0) \<and>
   req_method (session_request ''GET'' ''s1'') = ''GET'' \<and>
   entries ''s1'' (serve_session_req (session_request ''GET'' ''s1'') one_session) = Some (None, None)"
  by (simp add: run_defs js_string_defs Let_def)

subsection \<open>The key check\<close>

text \<open>
  C2, as the code has it. An OPTIONS request passes. Any other request passes exactly
  when a non-empty key is configured and the key the request supplies (query parameter,
  then \<^verbatim>\<open>X-API-Key\<close>, then the bearer token) is that key; every request that does not
  pass is answered 401 with the plain text \<open>unauthorized\<close>. With no key configured, or
  an empty one, every request other than OPTIONS is answered so.
\<close>

theorem requireKey_decides:
  "(requireKey API_KEY req = Next \<longleftrightarrow>
      req_method req = ''OPTIONS'' \<or>
      (\<exists>k. API_KEY = Some k \<and> k \<noteq> [] \<and> supplied_key req = Str k)) \<and>
   (requireKey API_KEY req \<noteq> Next \<longrightarrow>
      requireKey API_KEY req = Respond \<lparr>status = 401, body = Text ''unauthorized''\<rparr>) \<and>
   ((API_KEY = None \<or> API_KEY = Some []) \<and> req_method req \<noteq> ''OPTIONS'' \<longrightarrow>
      requireKey API_KEY req = Respond \<lparr>status = 401, body = Text ''unauthorized''\<rparr>)"
  by (auto simp: requireKey_def supplied_key_def js_or_def strict_eq_str_def Let_def
           split: option.splits)

theorem requireKey_decides_witness:
  "requireKey (Some ''k1'')
     \<lparr>req_method = ''GET'', query_key = Str [],
      headers = [''authorization'' \<mapsto> ''Bearer k1 ''], body_is_initialize = False\<rparr> = Next \<and>
   requireKey (Some ''k1'')
     \<lparr>req_method = ''GET'', query_key = Str ''no'',
      headers = [''x-api-key'' \<mapsto> ''k1''], body_is_initialize = False\<rparr>
     = Respond \<lparr>status = 401, body = Text ''unauthorized''\<rparr> \<and>
   requireKey None
     \<lparr>req_method = ''POST'', query_key = Str ''k1'', headers = Map.empty,
      body_is_initialize = False\<rparr>
     = Respond \<lparr>status = 401, body = Text ''unauthorized''\<rparr>"
proof -
  let ?r1 = "\<lparr>req_method = ''GET'', query_key = Str [],
      headers = [''authorization'' \<mapsto> ''Bearer k1 ''], body_is_initialize = False\<rparr>"
  let ?r2 = "\<lparr>req_method = ''GET'', query_key = Str ''no'',
      headers = [''x-api-key'' \<mapsto> ''k1''], body_is_initialize = False\<rparr>"
  let ?r3 = "\<lparr>req_method = ''POST'', query_key = Str ''k1'', headers = Map.empty,
      body_is_initialize = False\<rparr>"
  have s1: "supplied_key ?r1 = Str ''k1''"
    by (simp add: supplied_key_def req_get_def bearer_of_def js_string_defs)
  have s2: "supplied_key ?r2 = Str ''no''"
    by (simp add: supplied_key_def)
  have a: "requireKey (Some ''k1'') ?r1 = Next"
    by (rule iffD2[OF conjunct1[OF requireKey_decides]]) (simp add: s1)
  have "requireKey (Some ''k1'') ?r2 \<noteq> Next"
    using conjunct1[OF requireKey_decides, of "Some ''k1''" ?r2] s2 by simp
  then have b: "requireKey (Some ''k1'') ?r2 = Respond \<lparr>status = 401, body = Text ''unauthorized''\<rparr>"
    by (rule mp[OF conjunct1[OF conjunct2[OF requireKey_decides]]])
  have c: "requireKey None ?r3 = Respond \<lparr>status = 401, body = Text ''unauthorized''\<rparr>"
    by (rule mp[OF conjunct2[OF conjunct2[OF requireKey_decides]]]) simp
  show ?thesis using a b c by blast
qed

text \<open>
  The claim as worded has every request pass when no key is configured. With
  \<^verbatim>\<open>MCP_API_KEY\<close> unset, a GET is refused whatever key it brings.
\<close>

theorem no_key_configured_counterexample:
  "requireKey None
     \<lparr>req_method = ''GET'', query_key = Str ''abc'', headers = Map.empty,
      body_is_initialize = False\<rparr>
   = Respond \<lparr>status = 401, body = Text ''unauthorized''\<rparr>"
  by (simp add: requireKey_def)

subsection \<open>Touching a session\<close>






subsection \<open>Lookup and teardown\<close>

text \<open>
  C4, as the code has it. Let the protocol library initialise a transport that has no id
  yet with a non-empty id that no transport carries, in any state the server can be in.
  Whatever happens then (the initiating POST resumes and its response closes, further
  requests arrive, timers fire, time passes), as long as no GET or DELETE response on
  that transport has closed and less than \<open>TTL_MS\<close> has passed since the
  initialisation, a request carrying the id finds that transport. When a request to
  \<open>handleSessionReq\<close> with the id, a DELETE among them, has then been served and its
  response has closed, a lookup with the id finds nothing.
\<close>

theorem session_lookup:
  assumes "reachable st0" and "transport_sessionId st0 tr = None"
    and "\<forall>tr'. transport_sessionId st0 tr' \<noteq> Some sid" and "sid \<noteq> []"
    and "headerId req = Str sid"
    and "run evs (sdk_initialize tr sid st0) = Some st'"
    and "SessionClose tr \<notin> set evs"
    and "now st' < now st0 + TTL_MS"
  shows "lookup req st' = Some tr \<and>
         (\<exists>st''. serve_session_req req st' = Inr st'' \<and> lookup req st'' = None)"
proof -
  have l: "live sid tr (now st0 + TTL_MS) st'"
    by (rule live_run[OF live_init_state[OF assms(1,2,3,4)] assms(6,7,8)])
  have a: "lookup req st' = Some tr"
    using liveD(1)[OF l] lookup_by_header[OF assms(5,4)] by simp
  have r: "reachable st'"
    by (rule run_reachable[OF reachable.init[OF assms(1,2,4)] assms(6)])
  from serve_session_req_releases[OF r a assms(5)]
  obtain st'' where "serve_session_req req st' = Inr st''" "released sid st''" by blast
  then have "\<exists>st''. serve_session_req req st' = Inr st'' \<and> lookup req st'' = None"
    using lookup_by_header[OF assms(5,4)] by (auto simp: released_def)
  then show ?thesis using a by blast
qed

theorem session_lookup_witness:
  "lookup_after (session_request ''POST'' ''s1'')
     [PostDone 0, PostClose 0, Tick 300000, Post False None None (session_request ''POST'' ''s1''),
      PostDone 0, PostClose 0, Tick 299999] one_session = Some (Some 0) \<and>
   (\<exists>st''. serve_session_req (session_request ''DELETE'' ''s1'')
            (advance 300000 (post_closed 0 (post_handled 0 one_session))) = Inr st'' \<and>
          lookup (session_request ''DELETE'' ''s1'') st'' = None)"
proof -
  let ?st0 = "snd (post_mcp False None None init_request initial)"
  let ?evs = "[PostDone 0, PostClose 0, Tick 300000,
               Post False None None (session_request ''POST'' ''s1''),
               PostDone 0, PostClose 0, Tick 299999]"
  let ?pre = "[PostDone 0, PostClose 0, Tick 300000]"
  let ?v = "advance 300000 (post_closed 0 (post_handled 0 one_session))"
  have r: "reachable ?st0"
    by (rule reachable.post[OF reachable_initial, of False None None init_request
          "fst (post_mcp False None None init_request initial)"]) simp
  have n: "transport_sessionId ?st0 0 = None" "\<forall>tr'. transport_sessionId ?st0 tr' \<noteq> Some ''s1''"
    by (simp_all add: run_defs js_string_defs Let_def)
  have h: "\<And>m. headerId (session_request m ''s1'') = Str ''s1''"
    by (simp add: run_defs js_string_defs)
  have ne: "''s1'' \<noteq> []" by simp
  obtain u where u: "run ?evs one_session = Some u" and nu: "now u = 599999"
    by (simp add: run_defs js_string_defs Let_def)
  have v: "run ?pre one_session = Some ?v" by (simp add: step_def)
  have nv: "now ?v = 300000" by (simp add: run_defs js_string_defs Let_def)
  have c: "SessionClose 0 \<notin> set ?evs" "SessionClose 0 \<notin> set ?pre" by simp_all
  have w: "now u < now ?st0 + TTL_MS" "now ?v < now ?st0 + TTL_MS"
    using nu nv by (simp_all add: run_defs js_string_defs Let_def)
  note t1 = session_lookup[OF r n ne h[of "''POST''"] u[unfolded one_session_def] c(1) w(1)]
  note t2 = session_lookup[OF r n ne h[of "''DELETE''"] v[unfolded one_session_def] c(2)
              w(2)[unfolded one_session_def]]
  have 1: "lookup_after (session_request ''POST'' ''s1'') ?evs one_session = Some (Some 0)"
    using t1 u by (simp add: lookup_after_def)
  have 2: "\<exists>st''. serve_session_req (session_request ''DELETE'' ''s1'') ?v = Inr st'' \<and>
          lookup (session_request ''DELETE'' ''s1'') st'' = None"
    using t2 by (simp add: one_session_def)
  show ?thesis using 1 2 by blast
qed

text \<open>
  The claim as worded has the lookup succeed anywhere in the window. One second after
  the session \<open>s1\<close> was created, with no DELETE issued, the response of a GET on it
  closes, and the lookup finds nothing.
\<close>

theorem get_close_in_window_counterexample:
  "lookup_after (session_request ''POST'' ''s1'') [Tick 1000] one_session = Some (Some 0) \<and>
   lookup_after (session_request ''POST'' ''s1'')
     [Tick 1000, SessionReq (session_request ''GET'' ''s1''), SessionClose 0] one_session
     = Some None"
  by (simp add: run_defs js_string_defs Let_def)

subsection \<open>Release and a close that fails\<close>

lemma session_closed_twice:
  assumes e1: "session_closed tr st = Inr st1" and e2: "session_closed tr st1 = Inr st2"
    and s: "transport_sessionId st tr = Some sid" "sid \<noteq> []"
  shows "sessions st1 sid = None \<and> sessionTimers st1 sid = None \<and>
         sessions st2 sid = None \<and> sessionTimers st2 sid = None"
proof -
  have a: "sessions st1 sid = None \<and> sessionTimers st1 sid = None \<and>
           transport_sessionId st1 tr = Some sid"
    using session_closed_maps[OF e1] session_closed_frame[OF e1] s by simp
  have "sessions st2 sid = None \<and> sessionTimers st2 sid = None"
    using session_closed_maps[OF e2] a s(2) by simp
  then show ?thesis using a by simp
qed

lemma release_paths_idempotent:
  "(\<exists>st1 st2. session_closed tr st = Inr st1 \<and> session_closed tr st1 = Inr st2 \<and>
      (\<forall>sid. transport_sessionId st tr = Some sid \<and> sid \<noteq> [] \<longrightarrow>
         sessions st1 sid = None \<and> sessionTimers st1 sid = None \<and>
         sessions st2 sid = None \<and> sessionTimers st2 sid = None)) \<and>
   (\<exists>st1 st2. ttl_expired sid tr st = Inr st1 \<and> ttl_expired sid tr st1 = Inr st2 \<and>
      sessions st1 sid = None \<and> sessionTimers st1 sid = None \<and>
      sessions st2 sid = None \<and> sessionTimers st2 sid = None) \<and>
   (lookup req st = None \<longrightarrow>
      handleSessionReq req st =
        (Replied \<lparr>status = 400, body = Text ''Invalid or missing session ID''\<rparr>, st) \<and>
      serve_session_req req st = Inr st)"
proof -
  obtain st1 where e1: "session_closed tr st = Inr st1" using session_closed_total by blast
  obtain st2 where e2: "session_closed tr st1 = Inr st2" using session_closed_total by blast
  have a: "\<exists>st1 st2. session_closed tr st = Inr st1 \<and> session_closed tr st1 = Inr st2 \<and>
      (\<forall>sid. transport_sessionId st tr = Some sid \<and> sid \<noteq> [] \<longrightarrow>
         sessions st1 sid = None \<and> sessionTimers st1 sid = None \<and>
         sessions st2 sid = None \<and> sessionTimers st2 sid = None)"
    using e1 e2 session_closed_twice[OF e1 e2] by blast
  obtain u1 where f1: "ttl_expired sid tr st = Inr u1" using ttl_expired_total by blast
  obtain u2 where f2: "ttl_expired sid tr u1 = Inr u2" using ttl_expired_total by blast
  have b: "\<exists>st1 st2. ttl_expired sid tr st = Inr st1 \<and> ttl_expired sid tr st1 = Inr st2 \<and>
      sessions st1 sid = None \<and> sessionTimers st1 sid = None \<and>
      sessions st2 sid = None \<and> sessionTimers st2 sid = None"
    using f1 f2 ttl_expired_maps[OF f1] ttl_expired_maps[OF f2] by auto
  have c: "lookup req st = None \<longrightarrow>
      handleSessionReq req st =
        (Replied \<lparr>status = 400, body = Text ''Invalid or missing session ID''\<rparr>, st) \<and>
      serve_session_req req st = Inr st"
    by (simp add: handleSessionReq_def serve_session_req_def)
  show ?thesis using a b c by blast
qed

text \<open>
  C5, on the session \<open>s1\<close> when the close of its transport fails. Released by the close
  of a DELETE response, the session has no entry left in either map, and released by the
  expiry of its timer likewise; in both runs the rejection of the close is caught by
  nothing and stays with the process as an unhandled rejection.
\<close>

theorem close_rejection_unhandled:
  "unhandled failing_close = [] \<and>
   entries_after ''s1'' [SessionReq (session_request ''DELETE'' ''s1''), SessionClose 0] failing_close
     = Some (None, None) \<and>
   unhandled_after [SessionReq (session_request ''DELETE'' ''s1''), SessionClose 0] failing_close
     = Some [Exn ''close failed''] \<and>
   unhandled_after [Tick 600000, Fire 0] failing_close = Some [Exn ''close failed'']"
  by (simp add: run_defs js_string_defs Let_def)

subsection \<open>A POST that names no session and does not initialise\<close>

lemma ensure_accept_keeps:
  "headerId (ensure_accept fj req) = headerId req \<and>
   body_is_initialize (ensure_accept fj req) = body_is_initialize req"
  by (simp add: ensure_accept_def headerId_def req_get_def Let_def js_string_defs)

lemma lookup_ensure_accept: "lookup (ensure_accept fj req) st = lookup req st"
  by (simp add: lookup_def ensure_accept_keeps)

lemma log_mcp_hit_keeps: "lookup req (log_mcp_hit req' st) = lookup req st"
  by (simp add: log_mcp_hit_def console_log_def lookup_def split: jsval.splits)

text \<open>
  C6, as the code has it. A POST whose body the parser accepts and whose key is accepted,
  with \<open>initMcpServer\<close> resolved, whose session header is absent or names no live
  session and whose body is not an initialize request, is answered with status 400 and a
  JSON-RPC error envelope: version \<open>2.0\<close>, code \<open>-32000\<close>, the message about the missing
  session id and initialize, and a null id; but for the line of the logging middleware the
  state is left as it was. A POST whose
  body the parser refuses is answered 500 by the error-handling middleware, whatever
  else it carries, and a POST with an accepted key is answered 500 by the handler's
  \<^verbatim>\<open>catch\<close> when \<open>initMcpServer\<close> rejects.
\<close>

theorem post_without_session:
  "(requireKey API_KEY req = Next \<and> lookup req st = None \<and> \<not> body_is_initialize req \<longrightarrow>
      post_mcp_route API_KEY fj None None cf req st =
        (Replied \<lparr>status = 400,
                  body = JsonRpcError ''2.0'' (- 32000)
                    ''Bad Request: No valid session ID provided (missing initialize)''
                    Null\<rparr>, log_mcp_hit req st)) \<and>
   post_mcp_route API_KEY fj (Some (Exn m)) i cf req st =
     (Replied \<lparr>status = 500, body = SomethingWentWrong m\<rparr>, console_log (LogStack m) st) \<and>
   (requireKey API_KEY req = Next \<longrightarrow>
      post_mcp_route API_KEY fj None (Some (Exn m)) cf req st =
        (Replied \<lparr>status = 500, body = McpError m\<rparr>,
         console_log (LogMcpError m) (log_mcp_hit req st)))"
  by (simp add: post_mcp_route_def error_handler_def post_mcp_def mcp_error_def
        lookup_ensure_accept ensure_accept_keeps log_mcp_hit_keeps Let_def)

theorem post_without_session_witness:
  "fst (post_mcp_route (Some ''k1'') False None None None
     \<lparr>req_method = ''POST'', query_key = Str ''k1'', headers = Map.empty,
      body_is_initialize = False\<rparr> one_session) =
     Replied \<lparr>status = 400,
              body = JsonRpcError ''2.0'' (- 32000)
                ''Bad Request: No valid session ID provided (missing initialize)''
                Null\<rparr> \<and>
   sessions (snd (post_mcp_route (Some ''k1'') False None None None
     \<lparr>req_method = ''POST'', query_key = Str ''k1'', headers = Map.empty,
      body_is_initialize = False\<rparr> one_session)) = sessions one_session \<and>
   fst (post_mcp_route (Some ''k1'') False None (Some (Exn ''Cannot find module'')) None
     \<lparr>req_method = ''POST'', query_key = Str ''k1'', headers = Map.empty,
      body_is_initialize = False\<rparr> one_session) =
     Replied \<lparr>status = 500, body = McpError ''Cannot find module''\<rparr>"
proof -
  let ?r = "\<lparr>req_method = ''POST'', query_key = Str ''k1'', headers = Map.empty,
      body_is_initialize = False\<rparr>"
  have k: "requireKey (Some ''k1'') ?r = Next"
    by (simp add: requireKey_def req_get_def bearer_of_def js_or_def strict_eq_str_def)
  have 1: "lookup ?r one_session = None \<and> \<not> body_is_initialize ?r"
    by (simp add: lookup_def headerId_def req_get_def js_or_def)
  have a: "post_mcp_route (Some ''k1'') False None None None ?r one_session =
     (Replied \<lparr>status = 400,
               body = JsonRpcError ''2.0'' (- 32000)
                 ''Bad Request: No valid session ID provided (missing initialize)''
                 Null\<rparr>, log_mcp_hit ?r one_session)"
    using conjunct1[OF post_without_session[where API_KEY = "Some ''k1''" and req = ?r
        and st = one_session and fj = False and cf = None]] k 1 by blast
  have b: "fst (post_mcp_route (Some ''k1'') False None (Some (Exn ''Cannot find module'')) None
             ?r one_session) = Replied \<lparr>status = 500, body = McpError ''Cannot find module''\<rparr>"
    using conjunct2[OF conjunct2[OF post_without_session[where API_KEY = "Some ''k1''"
        and req = ?r and st = one_session and fj = False and cf = None
        and m = "''Cannot find module''"]]] k by simp
  have c: "sessions (log_mcp_hit ?r one_session) = sessions one_session"
    by (simp add: log_mcp_hit_def console_log_def)
  show ?thesis using a b c by simp
qed

text \<open>
  The claim as worded has no such POST answered 500. A POST with no session header and
  a body that is not JSON is.
\<close>

theorem malformed_body_counterexample:
  "lookup \<lparr>req_method = ''POST'', query_key = Str ''k1'', headers = Map.empty,
           body_is_initialize = False\<rparr> one_session = None \<and>
   fst (post_mcp_route (Some ''k1'') False (Some (Exn ''Unexpected token'')) None None
     \<lparr>req_method = ''POST'', query_key = Str ''k1'', headers = Map.empty,
      body_is_initialize = False\<rparr> one_session) =
     Replied \<lparr>status = 500, body = SomethingWentWrong ''Unexpected token''\<rparr>"
  by (simp add: post_mcp_route_def error_handler_def lookup_def headerId_def req_get_def js_or_def)

subsection \<open>Session entries and timer entries\<close>

lemma paired_delete:
  assumes "paired st" and "sessions st' = (sessions st)(sid := None)"
    and "sessionTimers st' = (sessionTimers st)(sid := None)"
  shows "paired st'"
  unfolding paired_def
proof
  fix s show "(sessions st' s \<noteq> None) = (sessionTimers st' s \<noteq> None)"
    using assms(1)[unfolded paired_def, rule_format, of s] assms(2,3)
    by (cases "s = sid") simp_all
qed

lemma paired_record:
  assumes "paired st" and "sessions st' = sessions st \<or> sessions st' = (sessions st)(sid \<mapsto> tr)"
    and "sessions st' sid \<noteq> None"
    and "sessionTimers st' = (sessionTimers st)(sid \<mapsto> t)"
  shows "paired st'"
  unfolding paired_def
proof
  fix s show "(sessions st' s \<noteq> None) = (sessionTimers st' s \<noteq> None)"
    using assms(1)[unfolded paired_def, rule_format, of s] assms(2,3,4)
    by (cases "s = sid") auto
qed

lemma touch_maps:
  "sid \<noteq> [] \<Longrightarrow>
   sessionTimers (touchSession (Some sid) tr st) = (sessionTimers st)(sid \<mapsto> next_timer st)"
  by (simp add: touchSession_def setTimeout_def clearTimeout_def Let_def split: option.splits)

lemma paired_touch:
  assumes "paired st" and "sessions st sid \<noteq> None"
  shows "paired (touchSession (Some sid) tr st)"
proof (cases "sid = []")
  case True then show ?thesis using assms(1) by (simp add: touchSession_def)
next
  case False
  show ?thesis
    by (rule paired_record[OF assms(1), of _ sid tr "next_timer st"])
       (use assms(2) touch_frame[of "Some sid" tr st] touch_maps[OF False, of tr st] in simp_all)
qed

lemma paired_init:
  assumes "paired st" and "sid \<noteq> []"
  shows "paired (onsessioninitialized sid tr st)"
proof -
  let ?st1 = "st\<lparr>sessions := (sessions st)(sid \<mapsto> tr)\<rparr>"
  show ?thesis
    by (rule paired_record[OF assms(1), of _ sid tr "next_timer st"])
       (use touch_frame[of "Some sid" tr ?st1] touch_maps[OF assms(2), of tr ?st1] in
         \<open>simp_all add: onsessioninitialized_def console_log_def Let_def\<close>)
qed

lemma paired_ttl:
  assumes "paired st" and "ttl_expired sid tr st = Inr st'"
  shows "paired st'"
  by (rule paired_delete[OF assms(1), of _ sid])
     (use assms(2) in \<open>auto simp: ttl_expired_def try_close_eq console_log_def Let_def
                         split: if_splits\<close>)

lemma paired_session_closed:
  assumes "paired st" and "session_closed tr st = Inr st'"
  shows "paired st'"
proof (cases "transport_sessionId st tr = None \<or> transport_sessionId st tr = Some []")
  case True then show ?thesis using assms by (auto simp: session_closed_def)
next
  case False
  then obtain s where s: "transport_sessionId st tr = Some s" "s \<noteq> []" by auto
  show ?thesis
    by (rule paired_delete[OF assms(1), of _ s])
       (use assms(2) s in \<open>auto simp: session_closed_def try_close_eq console_log_def
          clearTimeout_def Let_def split: if_splits option.splits\<close>)
qed

text \<open>
  C10, as the code has it. In every state the server can be in, each id in the session
  map has an entry in the timer map. The initialization callback (for a non-empty id),
  the expiry callback and the close handler of \<open>handleSessionReq\<close> keep the two maps on
  the same ids, and so does a touch of an id that has a session; a touch with no id
  changes nothing. A touch of an id that has no session is not among these: it records
  a timer all the same.
\<close>

theorem lifecycle_invariant:
  "(reachable st \<longrightarrow> registered st) \<and>
   (paired st \<and> sid \<noteq> [] \<longrightarrow> paired (onsessioninitialized sid tr st)) \<and>
   (paired st \<and> ttl_expired sid tr st = Inr st' \<longrightarrow> paired st') \<and>
   (paired st \<and> session_closed tr st = Inr st' \<longrightarrow> paired st') \<and>
   (paired st \<and> sessions st sid \<noteq> None \<longrightarrow> paired (touchSession (Some sid) tr st)) \<and>
   touchSession None tr st = st \<and> touchSession (Some []) tr st = st"
  using reachable_registered[of st] paired_init[of st sid tr] paired_ttl[of st sid tr st']
    paired_session_closed[of st tr st'] paired_touch[of st sid tr]
  by (simp add: touchSession_def)

theorem lifecycle_invariant_witness:
  "registered one_session \<and> paired (onsessioninitialized ''s2'' 1 initial) \<and>
   paired (touchSession (Some ''s1'') 0 one_session) \<and>
   (\<exists>st'. session_closed 0 one_session = Inr st' \<and> paired st') \<and>
   (\<exists>st'. ttl_expired ''s1'' 0 one_session = Inr st' \<and> paired st')"
proof -
  have p0: "paired initial" by (simp add: paired_def initial_def)
  have p1: "paired one_session \<and> sessions one_session ''s1'' \<noteq> None"
    by (simp add: paired_def run_defs js_string_defs Let_def)
  obtain u where u: "session_closed 0 one_session = Inr u" using session_closed_total by blast
  obtain v where v: "ttl_expired ''s1'' 0 one_session = Inr v" using ttl_expired_total by blast
  have 1: "registered one_session"
    using lifecycle_invariant[of one_session] reachable_one_session by blast
  have 2: "paired (onsessioninitialized ''s2'' 1 initial)"
    using lifecycle_invariant[of initial "''s2''" 1] p0 by simp
  have 3: "paired (touchSession (Some ''s1'') 0 one_session)"
    using lifecycle_invariant[of one_session "''s1''" 0] p1 by blast
  have 4: "paired u"
    using lifecycle_invariant[where st = one_session and tr = 0 and st' = u] p1 u by blast
  have 5: "paired v"
    using lifecycle_invariant[where st = one_session and sid = "''s1''" and tr = 0 and st' = v]
      p1 v by blast
  show ?thesis using 1 2 3 4 5 u v by blast
qed

text \<open>
  The claim as worded counts every touch among the operations that keep the two maps on
  the same ids. Line 353 touches after the await: the GET stream of the session has
  dropped in between, its close handler has removed the session, and the touch leaves a
  timer entry for \<open>s1\<close> with no session entry.
\<close>

theorem orphan_timer_counterexample:
  "entries_after ''s1'' [] one_session = Some (Some 0, Some 0) \<and>
   entries_after ''s1'' get_dropped_during_post one_session = Some (None, Some 3)"
  by (simp add: run_defs js_string_defs Let_def)

subsection \<open>The search tool\<close>

lemma startsWith_append: "startsWith s p \<longleftrightarrow> (\<exists>b. s = p @ b)"
  unfolding startsWith_def
  by (metis append_eq_conv_conj append_take_drop_id)

lemma str_includes_iff: "str_includes s p \<longleftrightarrow> (\<exists>a b. s = a @ p @ b)"
proof (induction s)
  case Nil then show ?case by auto
next
  case (Cons c cs)
  show ?case
  proof
    assume "str_includes (c # cs) p"
    then consider "startsWith (c # cs) p" | "str_includes cs p" by auto
    then show "\<exists>a b. c # cs = a @ p @ b"
    proof cases
      case 1 then obtain b where "c # cs = p @ b" using startsWith_append by blast
      then have "c # cs = [] @ p @ b" by simp
      then show ?thesis by blast
    next
      case 2 then obtain a b where "cs = a @ p @ b" using Cons.IH by blast
      then have "c # cs = (c # a) @ p @ b" by simp
      then show ?thesis by blast
    qed
  next
    assume "\<exists>a b. c # cs = a @ p @ b"
    then obtain a b where e: "c # cs = a @ p @ b" by blast
    show "str_includes (c # cs) p"
    proof (cases a)
      case Nil
      then have "startsWith (c # cs) p" using e startsWith_append[of "c # cs" p] by auto
      then show ?thesis by simp
    next
      case (Cons x xs)
      then have "cs = xs @ p @ b" using e by simp
      then show ?thesis using Cons.IH by auto
    qed
  qed
qed

lemma push_matching_eq:
  "push_matching query lid ts hits = hits @ map (Hit lid) (filter (matches query) ts)"
  by (induction ts arbitrary: hits) auto

lemma search_loop_eq:
  assumes "\<forall>l\<in>set ls.
             fetch_json env
               \<lparr>http_method = ''GET'',
                url = ''https://tasks.googleapis.com/tasks/v1/lists/'' @ ident l
                        @ ''/tasks?showCompleted='' @ (if show then ''true'' else ''false''),
                http_headers = h, http_body = None\<rparr> = Inr (reply_of l)"
  shows "search_loop env h query show ls hits =
           Inr (hits @ matches_in_order query (\<lambda>l. items_or_empty (reply_of l)) ls)"
  using assms
proof (induction ls arbitrary: hits)
  case Nil then show ?case by (simp add: matches_in_order_def)
next
  case (Cons l ls)
  then have j: "http_get env (tasks_url (ident l) show) h = Inr (reply_of l)"
    by (simp add: http_get_def tasks_url_def)
  have "search_loop env h query show ls
          (push_matching query (ident l) (items_or_empty (reply_of l)) hits)
        = Inr (push_matching query (ident l) (items_or_empty (reply_of l)) hits
               @ matches_in_order query (\<lambda>l. items_or_empty (reply_of l)) ls)"
    using Cons by simp
  then show ?case using j by (simp add: push_matching_eq matches_in_order_def)
qed

lemmas tool_defs =
  example_account_def tokenless_account_def revoked_account_def empty_account_def
  authHeader_def is_error_def error_result_def items_or_empty_def lists_url_def tasks_url_def
  task_url_def new_task_url_def http_get_def listTaskLists_def

text \<open>
  C7. Let the authorization header be had and every request to the task service be
  answered. The lists searched are the one list named by a non-empty \<open>listId\<close>, and
  otherwise the items of the account's lists, got from \<^verbatim>\<open>users/@me/lists\<close>. Each list
  is asked for its tasks at \<^verbatim>\<open>lists/<id>/tasks?showCompleted=\<close> followed by
  \<open>showCompleted\<close> as given, and by \<open>true\<close> when not given. A task is kept when no
  query is given, and otherwise exactly when its title, lower-cased, contains the
  lower-cased query. The result holds the first 25 of the tasks kept, list before list,
  each list's tasks in the order listed.
\<close>

theorem search_result:
  assumes "authHeader env = Inr a" and "\<not> is_error (auth_error a)"
    and "show = (case showCompleted of None \<Rightarrow> True | Some b \<Rightarrow> b)"
    and "(\<exists>lid. listId = Some lid \<and> lid \<noteq> [] \<and> ls = [\<lparr>ident = lid, title = None\<rparr>]) \<or>
         (listId = None \<or> listId = Some []) \<and>
         (\<exists>j. fetch_json env
                 \<lparr>http_method = ''GET'',
                  url = ''https://tasks.googleapis.com/tasks/v1/users/@me/lists'',
                  http_headers = auth_headers a, http_body = None\<rparr> = Inr j \<and>
              ls = (case items j of None \<Rightarrow> [] | Some xs \<Rightarrow> xs))"
    and "\<forall>l\<in>set ls.
           fetch_json env
             \<lparr>http_method = ''GET'',
              url = ''https://tasks.googleapis.com/tasks/v1/lists/'' @ ident l
                      @ ''/tasks?showCompleted='' @ (if show then ''true'' else ''false''),
              http_headers = auth_headers a, http_body = None\<rparr> = Inr (reply_of l)"
  shows "tool_search env query listId showCompleted =
           Inr \<lparr>content = HitsJson (take 25
                  (matches_in_order query
                     (\<lambda>l. case items (reply_of l) of None \<Rightarrow> [] | Some ts \<Rightarrow> ts) ls)),
                isError = False\<rparr> \<and>
         (\<forall>t. matches query t \<longleftrightarrow>
            (case query of
               None \<Rightarrow> True
             | Some q \<Rightarrow> \<exists>u v. toLowerCase (case title t of None \<Rightarrow> [] | Some s \<Rightarrow> s)
                                  = u @ toLowerCase q @ v))"
proof -
  have t: "(if listId \<noteq> None \<and> listId \<noteq> Some []
            then Inr [\<lparr>ident = the listId, title = None\<rparr>]
            else listTaskLists env (auth_headers a)) = Inr ls"
    using assms(4) by (auto simp: listTaskLists_def http_get_def lists_url_def items_or_empty_def)
  have io: "(\<lambda>l. items_or_empty (reply_of l)) =
            (\<lambda>l. case items (reply_of l) of None \<Rightarrow> [] | Some ts \<Rightarrow> ts)"
    by (simp add: items_or_empty_def)
  have 1: "tool_search env query listId showCompleted =
           Inr \<lparr>content = HitsJson (take 25
                  (matches_in_order query
                     (\<lambda>l. case items (reply_of l) of None \<Rightarrow> [] | Some ts \<Rightarrow> ts) ls)),
                isError = False\<rparr>"
  proof -
    have e: "tool_search env query listId showCompleted =
      (case (if listId \<noteq> None \<and> listId \<noteq> Some []
             then Inr [\<lparr>ident = the listId, title = None\<rparr>]
             else listTaskLists env (auth_headers a)) of
         Inl e \<Rightarrow> Inl e
       | Inr task_lists \<Rightarrow>
           (case search_loop env (auth_headers a) query show task_lists [] of
              Inl e \<Rightarrow> Inl e
            | Inr hits \<Rightarrow> Inr \<lparr>content = HitsJson (take 25 hits), isError = False\<rparr>))"
      using assms(1,2)
      by (simp add: tool_search_def assms(3)[symmetric] Let_def split del: if_split)
    show ?thesis
      unfolding e t using search_loop_eq[OF assms(5), of query "[]"] by (simp add: io)
  qed
  have 2: "\<forall>t. matches query t \<longleftrightarrow>
            (case query of
               None \<Rightarrow> True
             | Some q \<Rightarrow> \<exists>u v. toLowerCase (case title t of None \<Rightarrow> [] | Some s \<Rightarrow> s)
                                  = u @ toLowerCase q @ v)"
  proof (cases query)
    case None then show ?thesis by (simp add: matches_def)
  next
    case (Some q)
    have "q = [] \<Longrightarrow> \<exists>u v. x = u @ toLowerCase q @ v" for x :: string
    proof -
      assume "q = []"
      then have "x = x @ toLowerCase q @ []" by (simp add: toLowerCase_def)
      then show ?thesis by blast
    qed
    then show ?thesis using Some by (auto simp: matches_def str_includes_iff)
  qed
  show ?thesis using 1 2 by blast
qed

theorem search_result_witness:
  "tool_search example_account (Some ''groc'') None None =
     Inr \<lparr>content = HitsJson [Hit ''A'' \<lparr>ident = ''t1'', title = Some ''Groceries''\<rparr>,
                              Hit ''B'' \<lparr>ident = ''t3'', title = Some ''Order GROCERY bags''\<rparr>],
          isError = False\<rparr> \<and>
   tool_search example_account None (Some ''B'') (Some False) =
     Inr \<lparr>content = HitsJson [Hit ''B'' \<lparr>ident = ''t4'', title = None\<rparr>], isError = False\<rparr>"
proof -
  let ?h = "Some [(''Authorization'', ''Bearer at''), (''Content-Type'', ''application/json'')]"
  let ?a = "\<lparr>auth_headers = ?h, auth_error = None\<rparr>"
  let ?ls = "[\<lparr>ident = ''A'', title = Some ''Home''\<rparr>, \<lparr>ident = ''B'', title = Some ''Work''\<rparr>]"
  let ?ta = "\<lparr>items = Some [\<lparr>ident = ''t1'', title = Some ''Groceries''\<rparr>,
                             \<lparr>ident = ''t2'', title = Some ''Laundry''\<rparr>], document = []\<rparr>"
  let ?tb = "\<lparr>items = Some [\<lparr>ident = ''t3'', title = Some ''Order GROCERY bags''\<rparr>,
                             \<lparr>ident = ''t4'', title = None\<rparr>], document = []\<rparr>"
  let ?tb' = "\<lparr>items = Some [\<lparr>ident = ''t4'', title = None\<rparr>], document = []\<rparr>"
  let ?reply = "\<lambda>l. if ident l = ''A'' then ?ta else ?tb"
  have 1: "authHeader example_account = Inr ?a" by (simp add: tool_defs)
  have 2: "\<not> is_error (auth_error ?a)" by (simp add: is_error_def)
  have 3: "True = (case (None :: bool option) of None \<Rightarrow> True | Some b \<Rightarrow> b)"
    "False = (case Some False of None \<Rightarrow> True | Some b \<Rightarrow> b)" by simp_all
  have 4: "(\<exists>lid. (None :: string option) = Some lid \<and> lid \<noteq> [] \<and>
              ?ls = [\<lparr>ident = lid, title = None\<rparr>]) \<or>
         ((None :: string option) = None \<or> (None :: string option) = Some []) \<and>
         (\<exists>j. fetch_json example_account
                 \<lparr>http_method = ''GET'',
                  url = ''https://tasks.googleapis.com/tasks/v1/users/@me/lists'',
                  http_headers = auth_headers ?a, http_body = None\<rparr> = Inr j \<and>
              ?ls = (case items j of None \<Rightarrow> [] | Some xs \<Rightarrow> xs))"
    by (simp add: tool_defs)
  have 5: "\<forall>l\<in>set ?ls.
           fetch_json example_account
             \<lparr>http_method = ''GET'',
              url = ''https://tasks.googleapis.com/tasks/v1/lists/'' @ ident l
                      @ ''/tasks?showCompleted='' @ (if True then ''true'' else ''false''),
              http_headers = auth_headers ?a, http_body = None\<rparr> = Inr (?reply l)"
    by (simp add: tool_defs)
  have m: "matches_in_order (Some ''groc'')
             (\<lambda>l. case items (?reply l) of None \<Rightarrow> [] | Some ts \<Rightarrow> ts) ?ls =
             [Hit ''A'' \<lparr>ident = ''t1'', title = Some ''Groceries''\<rparr>,
              Hit ''B'' \<lparr>ident = ''t3'', title = Some ''Order GROCERY bags''\<rparr>]"
    by (simp add: matches_in_order_def matches_def js_string_defs)
  have a: "tool_search example_account (Some ''groc'') None None =
     Inr \<lparr>content = HitsJson [Hit ''A'' \<lparr>ident = ''t1'', title = Some ''Groceries''\<rparr>,
                              Hit ''B'' \<lparr>ident = ''t3'', title = Some ''Order GROCERY bags''\<rparr>],
          isError = False\<rparr>"
    using conjunct1[OF search_result[OF 1 2 3(1) 4 5, of "Some ''groc''"]] m by simp
  have 6: "(\<exists>lid. Some ''B'' = Some lid \<and> lid \<noteq> [] \<and>
              [\<lparr>ident = ''B'', title = None\<rparr>] = [\<lparr>ident = lid, title = None\<rparr>]) \<or>
         (Some ''B'' = None \<or> Some ''B'' = Some []) \<and>
         (\<exists>j. fetch_json example_account
                 \<lparr>http_method = ''GET'',
                  url = ''https://tasks.googleapis.com/tasks/v1/users/@me/lists'',
                  http_headers = auth_headers ?a, http_body = None\<rparr> = Inr j \<and>
              [\<lparr>ident = ''B'', title = None\<rparr>] = (case items j of None \<Rightarrow> [] | Some xs \<Rightarrow> xs))"
    by simp
  have 7: "\<forall>l\<in>set [\<lparr>ident = ''B'', title = None\<rparr>].
           fetch_json example_account
             \<lparr>http_method = ''GET'',
              url = ''https://tasks.googleapis.com/tasks/v1/lists/'' @ ident l
                      @ ''/tasks?showCompleted='' @ (if False then ''true'' else ''false''),
              http_headers = auth_headers ?a, http_body = None\<rparr> = Inr ((\<lambda>l. ?tb') l)"
    by (simp add: tool_defs)
  have m2: "matches_in_order None
             (\<lambda>l. case items ((\<lambda>l. ?tb') l) of None \<Rightarrow> [] | Some ts \<Rightarrow> ts)
             [\<lparr>ident = ''B'', title = None\<rparr>] =
             [Hit ''B'' \<lparr>ident = ''t4'', title = None\<rparr>]"
    by (simp add: matches_in_order_def matches_def)
  have b: "tool_search example_account None (Some ''B'') (Some False) =
     Inr \<lparr>content = HitsJson [Hit ''B'' \<lparr>ident = ''t4'', title = None\<rparr>], isError = False\<rparr>"
    using conjunct1[OF search_result[OF 1 2 3(2) 6 7, of None]] m2 by simp
  show ?thesis using a b by blast
qed

subsection \<open>Creating a task without a list id\<close>

text \<open>
  C8. Let the authorization header be had and the request for the account's lists be
  answered. Without a \<open>listId\<close>, \<open>create_task\<close> on an account with no list returns a
  result flagged as an error with the text \<open>No task lists found.\<close>, and raises
  nothing; on an account with lists, what it returns is the outcome of the POST to
  \<^verbatim>\<open>lists/<id>/tasks\<close> with the id of the first list, carrying title, notes and due
  date.
\<close>

theorem create_task_default_list:
  assumes "authHeader env = Inr a" and "\<not> is_error (auth_error a)"
    and "listId = None \<or> listId = Some []"
    and "fetch_json env
           \<lparr>http_method = ''GET'', url = ''https://tasks.googleapis.com/tasks/v1/users/@me/lists'',
            http_headers = auth_headers a, http_body = None\<rparr> = Inr j"
    and "ls = (case items j of None \<Rightarrow> [] | Some xs \<Rightarrow> xs)"
  shows "(ls = [] \<longrightarrow>
            tool_create_task env listId t n d =
              Inr \<lparr>content = Message ''No task lists found.'', isError = True\<rparr>) \<and>
         (ls \<noteq> [] \<longrightarrow>
            tool_create_task env listId t n d =
              (case fetch_json env
                      \<lparr>http_method = ''POST'',
                       url = ''https://tasks.googleapis.com/tasks/v1/lists/'' @ ident (hd ls)
                               @ ''/tasks'',
                       http_headers = auth_headers a, http_body = Some (TaskBody t n d)\<rparr> of
                 Inl e \<Rightarrow> Inl e
               | Inr r \<Rightarrow> Inr \<lparr>content = ReplyJson r, isError = False\<rparr>))"
proof -
  have l: "listTaskLists env (auth_headers a) = Inr ls"
    using assms(4,5) by (simp add: listTaskLists_def http_get_def lists_url_def items_or_empty_def)
  show ?thesis
    using assms(1,2,3) l
    by (auto simp: tool_create_task_def new_task_url_def Let_def split: list.splits)
qed

theorem create_task_default_list_witness:
  "tool_create_task empty_account None ''Buy milk'' None None =
     Inr \<lparr>content = Message ''No task lists found.'', isError = True\<rparr> \<and>
   tool_create_task example_account None ''Buy milk'' None None =
     Inr \<lparr>content = ReplyJson \<lparr>items = None, document = ''created in A''\<rparr>, isError = False\<rparr>"
proof -
  let ?h = "Some [(''Authorization'', ''Bearer at''), (''Content-Type'', ''application/json'')]"
  let ?a = "\<lparr>auth_headers = ?h, auth_error = None\<rparr>"
  let ?ls = "[\<lparr>ident = ''A'', title = Some ''Home''\<rparr>, \<lparr>ident = ''B'', title = Some ''Work''\<rparr>]"
  let ?get = "\<lparr>http_method = ''GET'',
               url = ''https://tasks.googleapis.com/tasks/v1/users/@me/lists'',
               http_headers = auth_headers ?a, http_body = None\<rparr>"
  have 1: "authHeader example_account = Inr ?a" "authHeader empty_account = Inr ?a"
    by (simp_all add: tool_defs)
  have 2: "\<not> is_error (auth_error ?a)" by (simp add: is_error_def)
  have 3: "fetch_json example_account ?get = Inr \<lparr>items = Some ?ls, document = []\<rparr>"
    "fetch_json empty_account ?get = Inr \<lparr>items = None, document = ''{}''\<rparr>"
    by (simp_all add: tool_defs)
  have 4: "?ls = (case items \<lparr>items = Some ?ls, document = []\<rparr> of None \<Rightarrow> [] | Some xs \<Rightarrow> xs)"
    "[] = (case items \<lparr>items = None, document = ''{}''\<rparr> of None \<Rightarrow> [] | Some xs \<Rightarrow> (xs :: entity list))"
    by simp_all
  have p: "fetch_json example_account
             \<lparr>http_method = ''POST'',
              url = ''https://tasks.googleapis.com/tasks/v1/lists/'' @ ident (hd ?ls) @ ''/tasks'',
              http_headers = auth_headers ?a, http_body = Some (TaskBody ''Buy milk'' None None)\<rparr>
           = Inr \<lparr>items = None, document = ''created in A''\<rparr>"
    by (simp add: tool_defs)
  have a: "tool_create_task empty_account None ''Buy milk'' None None =
     Inr \<lparr>content = Message ''No task lists found.'', isError = True\<rparr>"
    using create_task_default_list[OF 1(2) 2 _ 3(2) 4(2), of None] by simp
  have b: "tool_create_task example_account None ''Buy milk'' None None =
     Inr \<lparr>content = ReplyJson \<lparr>items = None, document = ''created in A''\<rparr>, isError = False\<rparr>"
    using create_task_default_list[OF 1(1) 2 _ 3(1) 4(1), of None "''Buy milk''" None None] p
    by simp
  show ?thesis using a b by blast
qed

subsection \<open>Tools without authorization\<close>

lemma authHeader_unauthorized:
  "savedTokens env = None \<Longrightarrow>
   authHeader env = Inr \<lparr>auth_headers = None,
                         auth_error = Some ''Not authorized. Visit /oauth2/start first.''\<rparr>"
  by (simp add: authHeader_def)

lemma authHeader_no_token:
  "savedTokens env = Some tk \<Longrightarrow> getAccessToken env tk = Inr at \<Longrightarrow>
   at = None \<or> at = Some None \<or> at = Some (Some []) \<Longrightarrow>
   authHeader env = Inr \<lparr>auth_headers = None,
                         auth_error = Some ''No access token (re-auth at /oauth2/start)''\<rparr>"
  by (auto simp: authHeader_def)

lemma authHeader_rejected:
  "savedTokens env = Some tk \<Longrightarrow> getAccessToken env tk = Inl e \<Longrightarrow> authHeader env = Inl e"
  by (simp add: authHeader_def)

lemma tools_on_auth_error:
  assumes "authHeader env = Inr \<lparr>auth_headers = None, auth_error = Some m\<rparr>" and "m \<noteq> []"
  shows "tool_search env q l sc = Inr \<lparr>content = Message m, isError = True\<rparr> \<and>
         tool_fetch env l' t' = Inr \<lparr>content = Message m, isError = True\<rparr> \<and>
         tool_create_task env l tt n d = Inr \<lparr>content = Message m, isError = True\<rparr>"
  using assms
  by (simp add: tool_search_def tool_fetch_def tool_create_task_def is_error_def error_result_def)

lemma tools_on_auth_exception:
  assumes "authHeader env = Inl e"
  shows "tool_search env q l sc = Inl e \<and> tool_fetch env l' t' = Inl e \<and>
         tool_create_task env l tt n d = Inl e"
  using assms by (simp add: tool_search_def tool_fetch_def tool_create_task_def)

text \<open>
  C9, as the code has it. Each of the three tools asks \<open>authHeader\<close> first. With no
  token set held, each returns a result flagged as an error whose text says the user is
  not authorized; with a token set held and a token request that resolves without a
  usable token, each returns a result flagged as an error with another text. With a
  token set held and a token request that is rejected, each handler throws what the
  request was rejected with. A handler has no access to the session state.
\<close>

theorem auth_failure_results:
  "(savedTokens env = None \<longrightarrow>
      tool_search env q l sc =
        Inr \<lparr>content = Message ''Not authorized. Visit /oauth2/start first.'', isError = True\<rparr> \<and>
      tool_fetch env l' t' =
        Inr \<lparr>content = Message ''Not authorized. Visit /oauth2/start first.'', isError = True\<rparr> \<and>
      tool_create_task env l tt n d =
        Inr \<lparr>content = Message ''Not authorized. Visit /oauth2/start first.'', isError = True\<rparr>) \<and>
   (savedTokens env = Some tk \<and> getAccessToken env tk = Inr at \<and>
    (at = None \<or> at = Some None \<or> at = Some (Some [])) \<longrightarrow>
      tool_search env q l sc =
        Inr \<lparr>content = Message ''No access token (re-auth at /oauth2/start)'', isError = True\<rparr> \<and>
      tool_fetch env l' t' =
        Inr \<lparr>content = Message ''No access token (re-auth at /oauth2/start)'', isError = True\<rparr> \<and>
      tool_create_task env l tt n d =
        Inr \<lparr>content = Message ''No access token (re-auth at /oauth2/start)'', isError = True\<rparr>) \<and>
   (savedTokens env = Some tk \<and> getAccessToken env tk = Inl e \<longrightarrow>
      tool_search env q l sc = Inl e \<and> tool_fetch env l' t' = Inl e \<and>
      tool_create_task env l tt n d = Inl e) \<and>
   ''Not authorized. Visit /oauth2/start first.'' \<noteq> ''No access token (re-auth at /oauth2/start)''"
proof -
  have a: "savedTokens env = None \<longrightarrow>
      tool_search env q l sc =
        Inr \<lparr>content = Message ''Not authorized. Visit /oauth2/start first.'', isError = True\<rparr> \<and>
      tool_fetch env l' t' =
        Inr \<lparr>content = Message ''Not authorized. Visit /oauth2/start first.'', isError = True\<rparr> \<and>
      tool_create_task env l tt n d =
        Inr \<lparr>content = Message ''Not authorized. Visit /oauth2/start first.'', isError = True\<rparr>"
  proof
    assume "savedTokens env = None"
    from tools_on_auth_error[OF authHeader_unauthorized[OF this]] show
     "tool_search env q l sc =
        Inr \<lparr>content = Message ''Not authorized. Visit /oauth2/start first.'', isError = True\<rparr> \<and>
      tool_fetch env l' t' =
        Inr \<lparr>content = Message ''Not authorized. Visit /oauth2/start first.'', isError = True\<rparr> \<and>
      tool_create_task env l tt n d =
        Inr \<lparr>content = Message ''Not authorized. Visit /oauth2/start first.'', isError = True\<rparr>"
      by simp
  qed
  have b: "savedTokens env = Some tk \<and> getAccessToken env tk = Inr at \<and>
    (at = None \<or> at = Some None \<or> at = Some (Some [])) \<longrightarrow>
      tool_search env q l sc =
        Inr \<lparr>content = Message ''No access token (re-auth at /oauth2/start)'', isError = True\<rparr> \<and>
      tool_fetch env l' t' =
        Inr \<lparr>content = Message ''No access token (re-auth at /oauth2/start)'', isError = True\<rparr> \<and>
      tool_create_task env l tt n d =
        Inr \<lparr>content = Message ''No access token (re-auth at /oauth2/start)'', isError = True\<rparr>"
  proof
    assume h: "savedTokens env = Some tk \<and> getAccessToken env tk = Inr at \<and>
      (at = None \<or> at = Some None \<or> at = Some (Some []))"
    then have "authHeader env = Inr \<lparr>auth_headers = None,
                         auth_error = Some ''No access token (re-auth at /oauth2/start)''\<rparr>"
      using authHeader_no_token[of env tk at] by blast
    from tools_on_auth_error[OF this] show
     "tool_search env q l sc =
        Inr \<lparr>content = Message ''No access token (re-auth at /oauth2/start)'', isError = True\<rparr> \<and>
      tool_fetch env l' t' =
        Inr \<lparr>content = Message ''No access token (re-auth at /oauth2/start)'', isError = True\<rparr> \<and>
      tool_create_task env l tt n d =
        Inr \<lparr>content = Message ''No access token (re-auth at /oauth2/start)'', isError = True\<rparr>"
      by simp
  qed
  have c: "savedTokens env = Some tk \<and> getAccessToken env tk = Inl e \<longrightarrow>
      tool_search env q l sc = Inl e \<and> tool_fetch env l' t' = Inl e \<and>
      tool_create_task env l tt n d = Inl e"
    using tools_on_auth_exception[OF authHeader_rejected, of env tk e] by blast
  have d: "''Not authorized. Visit /oauth2/start first.'' \<noteq> ''No access token (re-auth at /oauth2/start)''"
    by simp
  show ?thesis using a b c d by blast
qed

theorem auth_failure_results_witness:
  "tool_search (example_account\<lparr>savedTokens := None\<rparr>) None None None =
     Inr \<lparr>content = Message ''Not authorized. Visit /oauth2/start first.'', isError = True\<rparr> \<and>
   tool_fetch tokenless_account ''A'' ''t1'' =
     Inr \<lparr>content = Message ''No access token (re-auth at /oauth2/start)'', isError = True\<rparr> \<and>
   tool_create_task revoked_account None ''Buy milk'' None None = Inl (Exn ''invalid_grant'')"
proof -
  let ?tk = "\<lparr>access_token = Some ''at'', refresh_token = None\<rparr>"
  have 1: "savedTokens (example_account\<lparr>savedTokens := None\<rparr>) = None" by simp
  have 2: "savedTokens tokenless_account = Some ?tk \<and>
           getAccessToken tokenless_account ?tk = Inr (Some None)"
    by (simp add: tool_defs)
  have 3: "savedTokens revoked_account = Some ?tk \<and>
           getAccessToken revoked_account ?tk = Inl (Exn ''invalid_grant'')"
    by (simp add: tool_defs)
  have a: "tool_search (example_account\<lparr>savedTokens := None\<rparr>) None None None =
     Inr \<lparr>content = Message ''Not authorized. Visit /oauth2/start first.'', isError = True\<rparr>"
    using auth_failure_results[where env = "example_account\<lparr>savedTokens := None\<rparr>"
        and q = None and l = None and sc = None] 1 by blast
  have b: "tool_fetch tokenless_account ''A'' ''t1'' =
     Inr \<lparr>content = Message ''No access token (re-auth at /oauth2/start)'', isError = True\<rparr>"
    using auth_failure_results[where env = tokenless_account and l' = "''A''" and t' = "''t1''"
        and tk = ?tk and at = "Some None"] 2
    by blast
  have c: "tool_create_task revoked_account None ''Buy milk'' None None = Inl (Exn ''invalid_grant'')"
    using auth_failure_results[where env = revoked_account and l = None and tt = "''Buy milk''"
        and n = None and d = None and tk = ?tk and e = "Exn ''invalid_grant''"] 3
    by blast
  show ?thesis using a b c by blast
qed

text \<open>
  The claim as worded has the failure to obtain a token returned as a value in every
  case. With a token set whose refresh is rejected, every handler throws.
\<close>

theorem rejected_token_counterexample:
  "savedTokens revoked_account = Some \<lparr>access_token = Some ''at'', refresh_token = None\<rparr> \<and>
   tool_search revoked_account None None None = Inl (Exn ''invalid_grant'') \<and>
   tool_fetch revoked_account ''A'' ''t1'' = Inl (Exn ''invalid_grant'') \<and>
   tool_create_task revoked_account None ''Buy milk'' None None = Inl (Exn ''invalid_grant'')"
  by (simp add: tool_defs tool_search_def tool_fetch_def tool_create_task_def)

end
